theory Spec2Isabelle
  imports
    Complex_Main
    "HOL-Library.Char_ord"
    "HOL-Library.List_Lexorder"
    "HOL-Library.Multiset"
    "HOL-Library.AList"
    "HOL-Library.Code_Target_Numeral"
begin

section \<open>Strings and numbers of the JavaScript runtime\<close>

text \<open>
  A JavaScript string is modelled as a \<^typ>\<open>string\<close>: every \<^typ>\<open>char\<close> stands for one
  UTF-16 code unit of the range U+0000 to U+00FF, so \<open>length\<close> is the \<open>.length\<close> of the
  source. A counter of the source is a JavaScript number that only ever holds a natural
  number far below \<open>2^53\<close>; it is modelled as a \<^typ>\<open>nat\<close>.
\<close>

definition code_unit :: "char \<Rightarrow> nat" where
  "code_unit c = of_char c"

definition digit_char :: "nat \<Rightarrow> char" where
  "digit_char d = ''0123456789'' ! d"

text \<open>The decimal digits of a natural number, as a template literal prints it.\<close>

fun show_nat :: "nat \<Rightarrow> string" where
  "show_nat n = (if n < 10 then [digit_char n] else show_nat (n div 10) @ [digit_char (n mod 10)])"

declare show_nat.simps [simp del]

text \<open>
  \<open>x || d\<close> for an optional string parameter \<open>x\<close>: \<open>undefined\<close> (the argument was left
  out) and the empty string are both falsy, every other string is kept.
\<close>

definition or_default :: "string option \<Rightarrow> string \<Rightarrow> string" where
  "or_default x d = (case x of None \<Rightarrow> d | Some s \<Rightarrow> if s = [] then d else s)"

subsection \<open>Double precision numbers\<close>

text \<open>
  The averages and the grade level of the text analyzer are computed in binary64
  arithmetic. A number is \<open>NaN\<close>, an infinity (\<open>Infinity True\<close> is positive) or a
  finite value, held as the rational number the double stands for. Every operation
  computes the exact result and rounds it to the nearest double, ties to even
  (\<open>fl\<close>). The sign of zero is not kept, and overflow and subnormal numbers are not
  modelled: the operands here are counts of one string and three literals.
\<close>

datatype jsnum = NaN | Infinity bool | Num rat

fun bit_length :: "nat \<Rightarrow> nat" where
  "bit_length n = (if n = 0 then 0 else Suc (bit_length (n div 2)))"

declare bit_length.simps [simp del]

definition pow2 :: "int \<Rightarrow> rat" where
  "pow2 e = (if 0 \<le> e then 2 ^ nat e else 1 / 2 ^ nat (- e))"

text \<open>\<open>floor_log2 a\<close> is the exponent \<open>e\<close> with \<open>2^e \<le> a < 2^(e+1)\<close>, for \<open>a > 0\<close>.\<close>

definition floor_log2 :: "rat \<Rightarrow> int" where
  "floor_log2 a =
     (let (p, d) = quotient_of a;
          e = int (bit_length (nat p)) - int (bit_length (nat d))
      in if pow2 e \<le> a then e else e - 1)"

definition round_half_even :: "rat \<Rightarrow> int" where
  "round_half_even m =
     (let f = \<lfloor>m\<rfloor>; r = m - of_int f
      in if r < 1 / 2 then f else if 1 / 2 < r then f + 1 else if even f then f else f + 1)"

definition fl :: "rat \<Rightarrow> rat" where
  "fl q =
     (if q = 0 then 0
      else let a = \<bar>q\<bar>; u = pow2 (floor_log2 a - 52)
           in sgn q * of_int (round_half_even (a / u)) * u)"

text \<open>A counter as a double: every natural number below \<open>2^53\<close> is a double.\<close>

definition js_number :: "nat \<Rightarrow> jsnum" where
  "js_number n = Num (of_nat n)"

fun js_times :: "jsnum \<Rightarrow> jsnum \<Rightarrow> jsnum" where
  "js_times (Num a) (Num b) = Num (fl (a * b))"
| "js_times (Num a) (Infinity s) = (if a = 0 then NaN else Infinity (s = (0 < a)))"
| "js_times (Infinity s) (Num b) = (if b = 0 then NaN else Infinity (s = (0 < b)))"
| "js_times (Infinity s) (Infinity t) = Infinity (s = t)"
| "js_times _ _ = NaN"

fun js_divide :: "jsnum \<Rightarrow> jsnum \<Rightarrow> jsnum" where
  "js_divide (Num a) (Num b) =
     (if b = 0 then (if a = 0 then NaN else Infinity (0 < a)) else Num (fl (a / b)))"
| "js_divide (Num a) (Infinity s) = Num 0"
| "js_divide (Infinity s) (Num b) = Infinity (s = (0 \<le> b))"
| "js_divide _ _ = NaN"

fun js_plus :: "jsnum \<Rightarrow> jsnum \<Rightarrow> jsnum" where
  "js_plus (Num a) (Num b) = Num (fl (a + b))"
| "js_plus (Num a) (Infinity s) = Infinity s"
| "js_plus (Infinity s) (Num b) = Infinity s"
| "js_plus (Infinity s) (Infinity t) = (if s = t then Infinity s else NaN)"
| "js_plus _ _ = NaN"

fun js_negate :: "jsnum \<Rightarrow> jsnum" where
  "js_negate (Num a) = Num (- a)"
| "js_negate (Infinity s) = Infinity (\<not> s)"
| "js_negate NaN = NaN"

definition js_minus :: "jsnum \<Rightarrow> jsnum \<Rightarrow> jsnum" where
  "js_minus x y = js_plus x (js_negate y)"

text \<open>
  \<open>x.toFixed(1)\<close>: the integer \<open>n\<close> with \<open>n / 10\<close> closest to \<open>x\<close>, the larger one on a
  tie, printed with one fraction digit. (From \<open>10^21\<close> on the runtime prints an exponent
  instead; no count of a string comes near.)
\<close>

definition tenths :: "rat \<Rightarrow> nat" where
  "tenths x = nat \<lfloor>10 * x + 1 / 2\<rfloor>"

fun toFixed1 :: "jsnum \<Rightarrow> string" where
  "toFixed1 NaN = ''NaN''"
| "toFixed1 (Infinity s) = (if s then ''Infinity'' else ''-Infinity'')"
| "toFixed1 (Num x) =
     (if x < 0 then ''-'' else '''')
     @ show_nat (tenths \<bar>x\<bar> div 10) @ ''.'' @ show_nat (tenths \<bar>x\<bar> mod 10)"

section \<open>The simulated MCP servers\<close>

text \<open>
  The stubs read the clock (\<open>new Date().toISOString()\<close>, \<open>Date.now()\<close>) and write one line
  to the console. The clock readings are parameters of the model, in the order the
  source takes them, and the console line is returned beside the result.
\<close>

subsection \<open>salesforce/queryRecords\<close>

record sf_record =
  r_id :: string
  r_objectType :: string
  r_name :: string
  r_createdAt :: string

definition queryRecords :: "string \<times> string \<Rightarrow> string \<Rightarrow> string option \<Rightarrow> string \<times> sf_record list" where
  "queryRecords clock objectType filter_arg =
     (''Querying '' @ objectType @ '' records with filter: '' @ or_default filter_arg ''none'',
      [\<lparr>r_id = ''rec_001'', r_objectType = objectType, r_name = ''Record 1'',
         r_createdAt = fst clock\<rparr>,
       \<lparr>r_id = ''rec_002'', r_objectType = objectType, r_name = ''Record 2'',
         r_createdAt = snd clock\<rparr>])"

subsection \<open>google-drive/createDocument and updateDocument\<close>

record created_document =
  c_id :: string
  c_title :: string
  c_content :: string
  c_createdAt :: string
  c_status :: string

text \<open>\<open>now_ms\<close> is the reading of \<open>Date.now()\<close>, \<open>now_iso\<close> that of \<open>new Date().toISOString()\<close>.\<close>

definition createDocument :: "nat \<Rightarrow> string \<Rightarrow> string \<Rightarrow> string \<Rightarrow> string \<times> created_document" where
  "createDocument now_ms now_iso title content =
     (''Creating document with title: '' @ title,
      \<lparr>c_id = ''doc_'' @ show_nat now_ms, c_title = title, c_content = content,
        c_createdAt = now_iso, c_status = ''success''\<rparr>)"

record updated_document =
  u_id :: string
  u_title :: string
  u_content :: string
  u_modifiedAt :: string
  u_status :: string

text \<open>
  \<open>title\<close> and \<open>content\<close> are optional parameters (\<open>title?: string\<close>): \<open>None\<close> is a call
  that leaves the argument out.
\<close>

definition updateDocument :: "string \<Rightarrow> string \<Rightarrow> string option \<Rightarrow> string option \<Rightarrow> string \<times> updated_document" where
  "updateDocument now_iso documentId title content =
     (''Updating document with ID: '' @ documentId,
      \<lparr>u_id = documentId, u_title = or_default title ''Unchanged'',
        u_content = or_default content ''Unchanged'', u_modifiedAt = now_iso,
        u_status = ''success''\<rparr>)"

section \<open>The text analyzer skill\<close>

subsection \<open>Regular expressions of the skill\<close>

text \<open>
  \<open>\w\<close> without the unicode flag is \<open>[A-Za-z0-9_]\<close>; \<open>\s\<close> is, among the code units of
  the model, tab, line feed, vertical tab, form feed, carriage return, space and the
  no-break space.
\<close>

definition is_word_char :: "char \<Rightarrow> bool" where
  "is_word_char c =
     (let n = code_unit c
      in (48 \<le> n \<and> n \<le> 57) \<or> (65 \<le> n \<and> n \<le> 90) \<or> n = 95 \<or> (97 \<le> n \<and> n \<le> 122))"

definition is_sentence_end :: "char \<Rightarrow> bool" where
  "is_sentence_end c = (c = CHR ''.'' \<or> c = CHR ''!'' \<or> c = CHR ''?'')"

definition is_space :: "char \<Rightarrow> bool" where
  "is_space c = (code_unit c \<in> {9, 10, 11, 12, 13, 32, 160})"

definition is_vowel :: "char \<Rightarrow> bool" where
  "is_vowel c = (c \<in> set ''aeiouy'')"

text \<open>
  \<open>s.match(/\b[\w]+\b/g) || []\<close> and \<open>s.match(/[.!?]+/g) || []\<close>: with the global flag,
  \<open>match\<close> returns every match from left to right, each a maximal run of characters of
  the class (a run of word characters starts and ends at a word boundary), and \<open>null\<close>
  when there is none, which \<open>|| []\<close> turns into the empty list.
\<close>

function matches :: "(char \<Rightarrow> bool) \<Rightarrow> string \<Rightarrow> string list" where
  "matches P [] = []"
| "matches P (c # cs) =
     (if P c then (c # takeWhile P cs) # matches P (dropWhile P cs) else matches P cs)"
  by pat_completeness auto
termination
  by (relation "measure (\<lambda>(P, s). length s)") (auto simp: length_dropWhile_le less_Suc_eq_le)

text \<open>
  \<open>(s.match(new RegExp(word, "g")) || []).length\<close> for a word without regular
  expression operators: the occurrences of \<open>word\<close> in \<open>s\<close> that do not overlap, found from
  left to right. (The empty pattern matches once at every position.)
\<close>

function count_matches :: "string \<Rightarrow> string \<Rightarrow> nat" where
  "count_matches w s =
     (if w = [] then length s + 1
      else if s = [] then 0
      else if take (length w) s = w then 1 + count_matches w (drop (length w) s)
      else count_matches w (tl s))"
  by pat_completeness auto
termination
  by (relation "measure (\<lambda>(w, s). length s)") auto

declare count_matches.simps [simp del]

text \<open>
  \<open>toLowerCase\<close> on the code units of the model: the letters A to Z and the capital
  letters of the range U+00C0 to U+00DE (all but the multiplication sign U+00D7) move
  up by 32, every other code unit stays.
\<close>

definition toLowerCase_unit :: "char \<Rightarrow> char" where
  "toLowerCase_unit c =
     (let n = code_unit c
      in if (65 \<le> n \<and> n \<le> 90) \<or> (192 \<le> n \<and> n \<le> 222 \<and> n \<noteq> 215) then char_of (n + 32) else c)"

definition toLowerCase :: "string \<Rightarrow> string" where
  "toLowerCase s = map toLowerCase_unit s"

fun join :: "string \<Rightarrow> string list \<Rightarrow> string" where
  "join sep [] = []"
| "join sep [x] = x"
| "join sep (x # y # ys) = x @ sep @ join sep (y # ys)"

subsection \<open>analyzeKeywords\<close>

definition commonWords :: "string list" where
  "commonWords = [''the'', ''a'', ''an'', ''and'', ''or'', ''but'', ''in'', ''on'', ''at'', ''to'',
     ''for'', ''of'', ''with'', ''is'', ''are'', ''was'', ''were'', ''be'', ''been'']"

text \<open>
  \<open>wordFreq\<close> is the object literal \<open>{}\<close>: an ordinary object whose prototype is
  \<open>Object.prototype\<close>. It is modelled by the list of its own properties in the order
  they were created. Reading \<open>wordFreq[word]\<close> finds the own property, else the
  property that \<open>Object.prototype\<close> has under that name, else \<open>undefined\<close>. The
  prototype holds eleven builtin functions (\<open>constructor\<close> is the function \<open>Object\<close>,
  the others are named as their property) and the accessor \<open>__proto__\<close>.

  The value under a word is therefore a number, or a string: a function is truthy, so
  \<open>(f || 0) + 1\<close> is the source text of the builtin, \<open>function f() { [native code] }\<close>,
  followed by \<open>1\<close>, and each further occurrence appends another \<open>1\<close>.
  \<open>NativeText f k\<close> is that string with \<open>k\<close> ones.
\<close>

datatype freq = Count nat | NativeText string nat

definition object_prototype_functions :: "(string \<times> string) list" where
  "object_prototype_functions =
     [(''constructor'', ''Object''),
      (''__defineGetter__'', ''__defineGetter__''),
      (''__defineSetter__'', ''__defineSetter__''),
      (''hasOwnProperty'', ''hasOwnProperty''),
      (''__lookupGetter__'', ''__lookupGetter__''),
      (''__lookupSetter__'', ''__lookupSetter__''),
      (''isPrototypeOf'', ''isPrototypeOf''),
      (''propertyIsEnumerable'', ''propertyIsEnumerable''),
      (''toString'', ''toString''),
      (''valueOf'', ''valueOf''),
      (''toLocaleString'', ''toLocaleString'')]"

text \<open>
  \<open>wordFreq[word] = (wordFreq[word] || 0) + 1\<close>. An assignment to an own property keeps
  its place, an assignment to a new name creates the property last
  (\<open>AList.update\<close> does both). Under the name \<open>__proto__\<close> the read gives the prototype
  object and the assignment of the string \<open>[object Object]1\<close> goes to the setter of the
  accessor, which ignores a value that is not an object: nothing changes.
\<close>

definition count_word :: "(string \<times> freq) list \<Rightarrow> string \<Rightarrow> (string \<times> freq) list" where
  "count_word wordFreq w =
     (if w = ''__proto__'' then wordFreq
      else case map_of wordFreq w of
        Some (Count n) \<Rightarrow> AList.update w (Count (n + 1)) wordFreq
      | Some (NativeText f k) \<Rightarrow> AList.update w (NativeText f (k + 1)) wordFreq
      | None \<Rightarrow>
         (case map_of object_prototype_functions w of
            Some f \<Rightarrow> AList.update w (NativeText f 1) wordFreq
          | None \<Rightarrow> AList.update w (Count 1) wordFreq))"

definition is_digit :: "char \<Rightarrow> bool" where
  "is_digit c = (c \<in> set ''0123456789'')"

definition read_nat :: "string \<Rightarrow> nat" where
  "read_nat s = foldl (\<lambda>a c. 10 * a + (code_unit c - 48)) 0 s"

text \<open>
  \<open>Object.entries\<close> lists the own properties whose name is an array index (the decimal
  digits of a number below \<open>2^32 - 1\<close>, without a leading zero) first, in ascending
  numeric order, and the others after them in the order of their creation.
\<close>

definition is_array_index :: "string \<Rightarrow> bool" where
  "is_array_index s =
     (s \<noteq> [] \<and> list_all is_digit s \<and> (s = ''0'' \<or> hd s \<noteq> CHR ''0'') \<and> read_nat s < 2 ^ 32 - 1)"

definition object_entries :: "(string \<times> 'v) list \<Rightarrow> (string \<times> 'v) list" where
  "object_entries obj =
     sort_key (\<lambda>e. read_nat (fst e)) (filter (\<lambda>e. is_array_index (fst e)) obj)
     @ filter (\<lambda>e. \<not> is_array_index (fst e)) obj"

text \<open>
  \<open>b[1] - a[1]\<close>: the difference of two numbers, and \<open>NaN\<close> (here \<open>None\<close>) as soon as one
  side is a \<open>NativeText\<close>, which is not a numeric string.
\<close>

fun minus_freq :: "freq \<Rightarrow> freq \<Rightarrow> int option" where
  "minus_freq (Count m) (Count n) = Some (int m - int n)"
| "minus_freq _ _ = None"

definition by_frequency :: "string \<times> freq \<Rightarrow> string \<times> freq \<Rightarrow> int option" where
  "by_frequency a b = minus_freq (snd b) (snd a)"

text \<open>
  \<open>Array.prototype.sort\<close> with a comparison function, as V8, the engine of Node.js,
  carries it out. The result of a comparison that is \<open>NaN\<close> counts as \<open>+0\<close>. An array
  of fewer than 64 elements is sorted in one piece:

  \<^item> the run at the start of the array is taken: if the second element compares below
    the first, the longest prefix in which every element compares below the one
    before it, and this prefix is reversed; otherwise the longest prefix in which no
    element compares below the one before it;
  \<^item> every further element, from left to right, is put into the sorted part before it
    by binary insertion: the search compares the element with the middle of the
    remaining range and goes left if it compares below the middle, right otherwise.

  For a comparison function that orders the elements consistently this is a stable
  sort. Where the function is inconsistent, as it is when a comparison is \<open>NaN\<close>, the
  result depends on which pairs are compared, and the model compares the same pairs
  in the same order. An array of 64 elements or more is cut by V8 into several such
  pieces, which are then merged; the merge is not modelled, and the model sorts such
  an array in one piece as well, which gives the same array whenever the comparisons
  are consistent.
\<close>

definition sort_compare :: "('a \<Rightarrow> 'a \<Rightarrow> int option) \<Rightarrow> 'a \<Rightarrow> 'a \<Rightarrow> int" where
  "sort_compare comparefn x y = (case comparefn x y of None \<Rightarrow> 0 | Some v \<Rightarrow> v)"

text \<open>
  The number of elements that continue the run after the element \<open>previous\<close>.
\<close>

fun run_extent :: "bool \<Rightarrow> ('a \<Rightarrow> 'a \<Rightarrow> int option) \<Rightarrow> 'a \<Rightarrow> 'a list \<Rightarrow> nat" where
  "run_extent isDescending comparefn previous [] = 0"
| "run_extent isDescending comparefn previous (current # rest) =
     (if (if isDescending then 0 \<le> sort_compare comparefn current previous
          else sort_compare comparefn current previous < 0)
      then 0
      else Suc (run_extent isDescending comparefn current rest))"

text \<open>The run at the start of the array, made ascending, and the elements after it.\<close>

fun count_and_make_run :: "('a \<Rightarrow> 'a \<Rightarrow> int option) \<Rightarrow> 'a list \<Rightarrow> 'a list \<times> 'a list" where
  "count_and_make_run comparefn (elementHigh # elementLow # rest) =
     (let isDescending = sort_compare comparefn elementLow elementHigh < 0;
          runLength = 2 + run_extent isDescending comparefn elementLow rest;
          run = take runLength (elementHigh # elementLow # rest)
      in (if isDescending then rev run else run, drop runLength (elementHigh # elementLow # rest)))"
| "count_and_make_run comparefn xs = (xs, [])"

text \<open>
  The binary search for the place of \<open>pivot\<close> in \<open>xs\<close>, between the indices \<open>left\<close> and
  \<open>right\<close>; it is called with \<open>right\<close> at most the length of \<open>xs\<close>, so that \<open>mid\<close> is an
  index of \<open>xs\<close>.
\<close>

function insertion_point :: "('a \<Rightarrow> 'a \<Rightarrow> int option) \<Rightarrow> 'a \<Rightarrow> 'a list \<Rightarrow> nat \<Rightarrow> nat \<Rightarrow> nat" where
  "insertion_point comparefn pivot xs left right =
     (if left < right then
        (let mid = left + (right - left) div 2 in
         if sort_compare comparefn pivot (xs ! mid) < 0
         then insertion_point comparefn pivot xs left mid
         else insertion_point comparefn pivot xs (mid + 1) right)
      else left)"
  by pat_completeness auto
termination
  by (relation "measure (\<lambda>(comparefn, pivot, xs, left, right). right - left)") auto

declare insertion_point.simps [simp del]

fun binary_insertion :: "('a \<Rightarrow> 'a \<Rightarrow> int option) \<Rightarrow> 'a list \<Rightarrow> 'a list \<Rightarrow> 'a list" where
  "binary_insertion comparefn run [] = run"
| "binary_insertion comparefn run (pivot # rest) =
     (let left = insertion_point comparefn pivot run 0 (length run)
      in binary_insertion comparefn (take left run @ pivot # drop left run) rest)"

definition array_sort :: "('a \<Rightarrow> 'a \<Rightarrow> int option) \<Rightarrow> 'a list \<Rightarrow> 'a list" where
  "array_sort comparefn xs =
     (case count_and_make_run comparefn xs of (run, rest) \<Rightarrow> binary_insertion comparefn run rest)"

fun show_freq :: "freq \<Rightarrow> string" where
  "show_freq (Count n) = show_nat n"
| "show_freq (NativeText f k) = ''function '' @ f @ ''() { [native code] }'' @ replicate k CHR ''1''"

text \<open>The words that are counted: lowercased matches, without the common and the short ones.\<close>

definition keywordWords :: "string \<Rightarrow> string list" where
  "keywordWords txt =
     filter (\<lambda>w. w \<notin> set commonWords \<and> length w > 3) (matches is_word_char (toLowerCase txt))"

definition wordFreq :: "string \<Rightarrow> (string \<times> freq) list" where
  "wordFreq txt = foldl count_word [] (keywordWords txt)"

text \<open>\<open>Object.entries(wordFreq).sort((a, b) => b[1] - a[1]).slice(0, 10)\<close>\<close>

definition topKeywordEntries :: "string \<Rightarrow> (string \<times> freq) list" where
  "topKeywordEntries txt = take 10 (array_sort by_frequency (object_entries (wordFreq txt)))"

definition topKeywords :: "string \<Rightarrow> string list" where
  "topKeywords txt = map (\<lambda>(w, c). w @ '' ('' @ show_freq c @ '')'') (topKeywordEntries txt)"

definition keywordsReport :: "string \<Rightarrow> string" where
  "keywordsReport txt = ''**Top Keywords:** '' @ join '', '' (topKeywords txt)"

subsection \<open>analyzeSentiment\<close>

definition positiveWords :: "string list" where
  "positiveWords = [''good'', ''great'', ''excellent'', ''amazing'', ''wonderful'', ''fantastic'',
     ''love'', ''best'', ''happy'', ''perfect'']"

definition negativeWords :: "string list" where
  "negativeWords = [''bad'', ''terrible'', ''awful'', ''horrible'', ''worst'', ''hate'',
     ''disappointing'', ''sad'', ''angry'', ''poor'']"

definition positiveCount :: "string \<Rightarrow> nat" where
  "positiveCount txt = sum_list (map (\<lambda>w. count_matches w (toLowerCase txt)) positiveWords)"

definition negativeCount :: "string \<Rightarrow> nat" where
  "negativeCount txt = sum_list (map (\<lambda>w. count_matches w (toLowerCase txt)) negativeWords)"

definition sentimentReport :: "string \<Rightarrow> string" where
  "sentimentReport txt =
     (let sentiment =
            (if positiveCount txt > negativeCount txt then ''Positive''
             else if negativeCount txt > positiveCount txt then ''Negative''
             else ''Neutral'')
      in ''**Sentiment:** '' @ sentiment @ '' (Positive: '' @ show_nat (positiveCount txt)
         @ '', Negative: '' @ show_nat (negativeCount txt) @ '')'')"

subsection \<open>analyzeStatistics\<close>

definition wordCount :: "string \<Rightarrow> nat" where
  "wordCount txt = length (matches is_word_char txt)"

text \<open>\<open>(text.match(/[.!?]+/g) || []).length || 1\<close>: a count of zero is falsy and becomes 1.\<close>

definition sentenceCount :: "string \<Rightarrow> nat" where
  "sentenceCount txt =
     (let n = length (matches is_sentence_end txt) in if n = 0 then 1 else n)"

definition characters :: "string \<Rightarrow> nat" where
  "characters txt = length txt"

definition charactersNoSpaces :: "string \<Rightarrow> nat" where
  "charactersNoSpaces txt = length (filter (\<lambda>c. \<not> is_space c) txt)"

definition avgWordLength :: "string \<Rightarrow> jsnum" where
  "avgWordLength txt = js_divide (js_number (charactersNoSpaces txt)) (js_number (wordCount txt))"

definition avgWordsPerSentence :: "string \<Rightarrow> jsnum" where
  "avgWordsPerSentence txt = js_divide (js_number (wordCount txt)) (js_number (sentenceCount txt))"

definition newline :: string where
  "newline = [CHR 0x0A]"

definition statisticsReport :: "string \<Rightarrow> string" where
  "statisticsReport txt =
     ''**Text Statistics:**'' @ newline
     @ ''- Words: '' @ show_nat (wordCount txt) @ newline
     @ ''- Sentences: '' @ show_nat (sentenceCount txt) @ newline
     @ ''- Characters: '' @ show_nat (characters txt) @ newline
     @ ''- Characters (no spaces): '' @ show_nat (charactersNoSpaces txt) @ newline
     @ ''- Avg word length: '' @ toFixed1 (avgWordLength txt) @ newline
     @ ''- Avg words per sentence: '' @ toFixed1 (avgWordsPerSentence txt)"

subsection \<open>analyzeReadability and countSyllables\<close>

definition countSyllables :: "string \<Rightarrow> nat" where
  "countSyllables txt =
     sum_list (map (\<lambda>w. max 1 (length (filter is_vowel (toLowerCase w)))) (matches is_word_char txt))"

text \<open>The literals 0.39, 11.8 and 15.59 are the doubles closest to these decimals.\<close>

definition grade :: "string \<Rightarrow> jsnum" where
  "grade txt =
     js_minus
       (js_plus
          (js_divide (js_times (Num (fl (39 / 100))) (js_number (wordCount txt)))
             (js_number (sentenceCount txt)))
          (js_divide (js_times (Num (fl (118 / 10))) (js_number (countSyllables txt)))
             (js_number (wordCount txt))))
       (Num (fl (1559 / 100)))"

text \<open>
  \<open>Math.max(0, grade.toFixed(1))\<close>. \<open>toFixed(1)\<close> gives a decimal with one fraction
  digit; \<open>Math.max\<close> reads it back as the closest double and returns it when it is
  positive, 0 when it is not, and \<open>NaN\<close> for \<open>NaN\<close>. The comparisons and the template
  literal then see that double: it is below an integer bound exactly when the decimal
  is, and it prints as the decimal, without a fraction digit that is 0. The grade level
  is kept as the number of tenths.
\<close>

datatype grade_level = LevelNaN | LevelInfinity | Tenths nat

fun gradeLevel_of :: "jsnum \<Rightarrow> grade_level" where
  "gradeLevel_of NaN = LevelNaN"
| "gradeLevel_of (Infinity s) = (if s then LevelInfinity else Tenths 0)"
| "gradeLevel_of (Num x) = (if x < 0 then Tenths 0 else Tenths (tenths x))"

fun level_below :: "grade_level \<Rightarrow> nat \<Rightarrow> bool" where
  "level_below (Tenths n) bound = (n < 10 * bound)"
| "level_below _ bound = False"

fun show_level :: "grade_level \<Rightarrow> string" where
  "show_level LevelNaN = ''NaN''"
| "show_level LevelInfinity = ''Infinity''"
| "show_level (Tenths n) =
     show_nat (n div 10) @ (if n mod 10 = 0 then '''' else ''.'' @ show_nat (n mod 10))"

definition readabilityLevel :: "grade_level \<Rightarrow> string" where
  "readabilityLevel g =
     (if level_below g 6 then ''Very Easy (5th grade)''
      else if level_below g 9 then ''Easy (6th-8th grade)''
      else if level_below g 13 then ''Average (9th-12th grade)''
      else if level_below g 16 then ''Difficult (College)''
      else ''Very Difficult (Graduate)'')"

definition readabilityReport :: "string \<Rightarrow> string" where
  "readabilityReport txt =
     (let gradeLevel = gradeLevel_of (grade txt)
      in ''**Readability Analysis:**'' @ newline
         @ ''- Grade Level: '' @ show_level gradeLevel @ newline
         @ ''- Level: '' @ readabilityLevel gradeLevel @ newline
         @ ''- Syllables: '' @ show_nat (countSyllables txt))"

subsection \<open>Arguments of a call\<close>

text \<open>
  The arguments of a call are JSON values. A number is a rational number (every
  finite double is one), an object is the list of its members in insertion order.
\<close>

datatype json =
    JNull
  | JBool bool
  | JNum rat
  | JStr string
  | JArr "json list"
  | JObj "(string \<times> json) list"

text \<open>
  An object has no two members of the same name: \<open>is_value\<close> holds of the lists that
  stand for a JSON value.
\<close>

fun is_value :: "json \<Rightarrow> bool" where
  "is_value (JArr vs) = list_all is_value vs"
| "is_value (JObj kvs) = (distinct (map fst kvs) \<and> list_all (\<lambda>(k, v). is_value v) kvs)"
| "is_value v = True"

text \<open>
  Two lists stand for the same value when they differ at most in the order in which
  the members of their objects are written, at any depth: the numbers, strings and
  truth values are equal, the arrays have the same elements in the same order, and
  the objects have the same number of members and under every name of the one the
  other has the same value.
\<close>

fun same_value :: "json \<Rightarrow> json \<Rightarrow> bool" where
  "same_value (JArr vs) (JArr ws) = list_all2 same_value vs ws"
| "same_value (JObj kvs) (JObj kws) =
     (length kvs = length kws
      \<and> list_all (\<lambda>(k, v). case map_of kws k of None \<Rightarrow> False | Some w \<Rightarrow> same_value v w) kvs)"
| "same_value v w = (v = w)"

text \<open>A value without objects: a number, a string, a truth value, \<open>null\<close>, or an array of such.\<close>

fun object_free :: "json \<Rightarrow> bool" where
  "object_free (JArr vs) = list_all object_free vs"
| "object_free (JObj kvs) = False"
| "object_free v = True"

subsection \<open>The Deduplicator\<close>

text \<open>
  Modelled from the spec: the class \<open>Deduplicator\<close> of \<open>../utils/dedupe\<close>, which the
  skill requires and the sources do not contain. The spec (3 and 4.2) keys an
  execution record by the skill name followed by the canonical serialization of the
  arguments: the object keys in stable-sorted order, then serialized as JSON-like text.
  The spec leaves the text of a number open and asks that differing values never
  collide; the model writes a number exactly, an integer in decimal digits and any
  other number as the fraction in lowest terms.
  A fresh Deduplicator holds no record; \<open>isDuplicate\<close> reports whether a record with
  the key exists, \<open>recordResult\<close> stores a result under the key and overwrites,
  \<open>getCachedResult\<close> returns the result or nothing.
\<close>

definition show_int :: "int \<Rightarrow> string" where
  "show_int i = (if i < 0 then CHR ''-'' # show_nat (nat (- i)) else show_nat (nat i))"

definition show_number :: "rat \<Rightarrow> string" where
  "show_number x =
     (case quotient_of x of (p, q) \<Rightarrow>
        if q = 1 then show_int p else show_int p @ ''/'' @ show_nat (nat q))"

definition escape_unit :: "char \<Rightarrow> string" where
  "escape_unit c = (if c = CHR 0x22 \<or> c = CHR 0x5C then [CHR 0x5C, c] else [c])"

definition quote :: "string \<Rightarrow> string" where
  "quote s = CHR 0x22 # concat (map escape_unit s) @ [CHR 0x22]"

fun serialize :: "json \<Rightarrow> string" where
  "serialize JNull = ''null''"
| "serialize (JBool b) = (if b then ''true'' else ''false'')"
| "serialize (JNum x) = show_number x"
| "serialize (JStr s) = quote s"
| "serialize (JArr vs) = ''['' @ join '','' (map serialize vs) @ '']''"
| "serialize (JObj kvs) = ''{'' @ join '','' (map (\<lambda>(k, v). quote k @ '':'' @ serialize v) kvs) @ ''}''"

fun canonical :: "json \<Rightarrow> json" where
  "canonical (JArr vs) = JArr (map canonical vs)"
| "canonical (JObj kvs) = JObj (sort_key fst (map (\<lambda>(k, v). (k, canonical v)) kvs))"
| "canonical v = v"

text \<open>
  Modelled from the spec: the composite key, the skill name followed by the canonical
  serialization of the arguments.
\<close>

definition composite_key :: "string \<Rightarrow> (string \<times> json) list \<Rightarrow> string" where
  "composite_key skillName args = skillName @ serialize (canonical (JObj args))"

text \<open>
  Modelled from the spec: the records of a Deduplicator, a result under each composite
  key, and its operations.
\<close>

type_synonym 'r deduplicator = "string \<rightharpoonup> 'r"

definition fresh_Deduplicator :: "'r deduplicator" where
  "fresh_Deduplicator = Map.empty"

definition isDuplicate :: "'r deduplicator \<Rightarrow> string \<Rightarrow> (string \<times> json) list \<Rightarrow> bool" where
  "isDuplicate d skillName args = (d (composite_key skillName args) \<noteq> None)"

definition recordResult :: "'r deduplicator \<Rightarrow> string \<Rightarrow> (string \<times> json) list \<Rightarrow> 'r \<Rightarrow> 'r deduplicator" where
  "recordResult d skillName args r = d(composite_key skillName args \<mapsto> r)"

definition getCachedResult :: "'r deduplicator \<Rightarrow> string \<Rightarrow> (string \<times> json) list \<Rightarrow> 'r option" where
  "getCachedResult d skillName args = d (composite_key skillName args)"

text \<open>
  Modelled from the spec: \<open>trackRun\<close>, the method that the skill calls where the spec
  has \<open>recordResult\<close>. The call \<open>tracker.trackRun(name, params)\<close> passes no result: the
  run is recorded under the key and there is nothing to cache.
\<close>

definition trackRun :: "unit deduplicator \<Rightarrow> string \<Rightarrow> (string \<times> json) list \<Rightarrow> unit deduplicator" where
  "trackRun d skillName args = recordResult d skillName args ()"

subsection \<open>Reading a serialization back\<close>

text \<open>
  Notions for the proof that \<open>serialize\<close> is injective. \<open>no_digit_ahead r\<close>: the text
  \<open>r\<close> does not start with a digit. \<open>stops r\<close>: the text \<open>r\<close> that follows a value cannot
  be taken for more of a number, neither digits nor a denominator. \<open>decodes f x\<close>: the
  text \<open>f x\<close>, followed by such a remainder, determines \<open>x\<close> and the remainder. The
  first character of a serialization tells the kind of the value.
\<close>

definition no_digit_ahead :: "string \<Rightarrow> bool" where
  "no_digit_ahead r = (case r of [] \<Rightarrow> True | c # _ \<Rightarrow> \<not> is_digit c)"

definition stops :: "string \<Rightarrow> bool" where
  "stops r = (case r of [] \<Rightarrow> True | c # _ \<Rightarrow> \<not> is_digit c \<and> c \<noteq> CHR ''/'')"

definition decodes :: "('a \<Rightarrow> string) \<Rightarrow> 'a \<Rightarrow> bool" where
  "decodes f x = (\<forall>x' r r'. f x @ r = f x' @ r' \<and> stops r \<and> stops r' \<longrightarrow> x = x' \<and> r = r')"

definition char_class :: "char \<Rightarrow> nat" where
  "char_class c =
     (if c = CHR ''n'' then 0 else if c = CHR ''t'' \<or> c = CHR ''f'' then 1
      else if c = CHR ''-'' \<or> is_digit c then 2 else if c = CHR 0x22 then 3
      else if c = CHR ''['' then 4 else if c = CHR ''{'' then 5 else 6)"

fun json_class :: "json \<Rightarrow> nat" where
  "json_class JNull = 0"
| "json_class (JBool _) = 1"
| "json_class (JNum _) = 2"
| "json_class (JStr _) = 3"
| "json_class (JArr _) = 4"
| "json_class (JObj _) = 5"

subsection \<open>The analysis functions on an argument\<close>

text \<open>
  The analysis functions call a string method on \<open>text\<close> first
  (\<open>text.toLowerCase()\<close>, \<open>text.match(...)\<close>). On a string the call goes through; on
  \<open>null\<close> and on every other JSON value the runtime throws a \<open>TypeError\<close>. The messages
  are those of V8.
\<close>

datatype js_error = TypeError string

fun message :: "js_error \<Rightarrow> string" where
  "message (TypeError m) = m"

fun method_receiver :: "string \<Rightarrow> json \<Rightarrow> js_error + string" where
  "method_receiver m (JStr s) = Inr s"
| "method_receiver m JNull =
     Inl (TypeError (''Cannot read properties of null (reading '' @ [CHR 0x27] @ m @ [CHR 0x27] @ '')''))"
| "method_receiver m v = Inl (TypeError (''text.'' @ m @ '' is not a function''))"

definition analyzeKeywords :: "json \<Rightarrow> js_error + string" where
  "analyzeKeywords v =
     (case method_receiver ''toLowerCase'' v of Inl e \<Rightarrow> Inl e | Inr s \<Rightarrow> Inr (keywordsReport s))"

definition analyzeSentiment :: "json \<Rightarrow> js_error + string" where
  "analyzeSentiment v =
     (case method_receiver ''toLowerCase'' v of Inl e \<Rightarrow> Inl e | Inr s \<Rightarrow> Inr (sentimentReport s))"

definition analyzeStatistics :: "json \<Rightarrow> js_error + string" where
  "analyzeStatistics v =
     (case method_receiver ''match'' v of Inl e \<Rightarrow> Inl e | Inr s \<Rightarrow> Inr (statisticsReport s))"

definition analyzeReadability :: "json \<Rightarrow> js_error + string" where
  "analyzeReadability v =
     (case method_receiver ''match'' v of Inl e \<Rightarrow> Inl e | Inr s \<Rightarrow> Inr (readabilityReport s))"

subsection \<open>The handler\<close>

text \<open>
  The handler takes one object and reads \<open>text\<close> and \<open>analysis_type\<close> from it; a
  property that is absent or \<open>undefined\<close> (\<open>None\<close>) gets its default. A call returns a
  string, leaves the state of the tracker as it is or with one more run, and has
  effects on its collaborators, which are recorded in order: a line for
  \<open>handlerProps.log\<close>, a line for \<open>introspect\<close>, and the start of an analysis function.

  The tracker is an object of the host (\<open>new Deduplicator()\<close>): the handler only calls
  its methods \<open>isDuplicate\<close> and \<open>trackRun\<close>. The two methods are parameters of the
  model, over any type of tracker states. The other collaborators (\<open>this.super\<close>,
  \<open>this.caller\<close>) are taken not to throw.
\<close>

record 't tracker_methods =
  tracker_isDuplicate :: "'t \<Rightarrow> string \<Rightarrow> (string \<times> json) list \<Rightarrow> bool"
  tracker_trackRun :: "'t \<Rightarrow> string \<Rightarrow> (string \<times> json) list \<Rightarrow> 't"

text \<open>The tracker of the skill: the Deduplicator as the spec describes it.\<close>

definition Deduplicator :: "unit deduplicator tracker_methods" where
  "Deduplicator = \<lparr>tracker_isDuplicate = isDuplicate, tracker_trackRun = trackRun\<rparr>"

record handler_args =
  arg_text :: "json option"
  arg_analysis_type :: "json option"

datatype analysis = Keywords | Sentiment | Statistics | Readability

datatype event = Log string | Introspect string | Run analysis

record 't handler_return =
  returned :: string
  tracker :: 't
  events :: "event list"

definition skill_name :: string where
  "skill_name = ''text-analyzer''"

text \<open>The \<open>switch\<close> compares with \<open>===\<close>: only the four strings select an analysis.\<close>

fun selected :: "json \<Rightarrow> (analysis \<times> string) option" where
  "selected (JStr s) =
     (if s = ''keywords'' then Some (Keywords, s)
      else if s = ''sentiment'' then Some (Sentiment, s)
      else if s = ''statistics'' then Some (Statistics, s)
      else if s = ''readability'' then Some (Readability, s)
      else None)"
| "selected v = None"

fun analyze :: "analysis \<Rightarrow> json \<Rightarrow> js_error + string" where
  "analyze Keywords v = analyzeKeywords v"
| "analyze Sentiment v = analyzeSentiment v"
| "analyze Statistics v = analyzeStatistics v"
| "analyze Readability v = analyzeReadability v"

definition text_of :: "handler_args \<Rightarrow> json" where
  "text_of args = (case arg_text args of None \<Rightarrow> JStr [] | Some v \<Rightarrow> v)"

definition analysis_type_of :: "handler_args \<Rightarrow> json" where
  "analysis_type_of args =
     (case arg_analysis_type args of None \<Rightarrow> JStr ''keywords'' | Some v \<Rightarrow> v)"

text \<open>The object \<open>{ text, analysis_type }\<close> that is handed to the tracker.\<close>

definition params_of :: "handler_args \<Rightarrow> (string \<times> json) list" where
  "params_of args = [(''text'', text_of args), (''analysis_type'', analysis_type_of args)]"

text \<open>
  The \<open>try\<close> block. It ends by a \<open>return\<close> (\<open>Inr\<close>) or by an error that an analysis
  function throws (\<open>Inl\<close>); in both cases it leaves a state of the tracker and the
  effects it had up to that point.
\<close>

definition try_block ::
  "'t tracker_methods \<Rightarrow> string \<Rightarrow> 't \<Rightarrow> handler_args \<Rightarrow> 't \<times> event list \<times> (js_error + string)" where
  "try_block T caller trk args =
     (if tracker_isDuplicate T trk skill_name (params_of args) then
        (trk,
         [Log (skill_name @ '' was called with duplicate parameters, skipping.'')],
         Inr ''This text has already been analyzed. The results are shown above.'')
      else case selected (analysis_type_of args) of
        None \<Rightarrow> (trk, [], Inr ''Invalid analysis type specified.'')
      | Some (a, type_name) \<Rightarrow>
         (case analyze a (text_of args) of
            Inl error \<Rightarrow> (trk, [Run a], Inl error)
          | Inr result \<Rightarrow>
              (tracker_trackRun T trk skill_name (params_of args),
               [Run a, Introspect (caller @ '': Analyzing text for '' @ type_name @ ''.'')],
               Inr result)))"

text \<open>The handler: the \<open>try\<close> block, and the \<open>catch\<close> clause for an error that left it.\<close>

definition handler :: "'t tracker_methods \<Rightarrow> string \<Rightarrow> 't \<Rightarrow> handler_args \<Rightarrow> 't handler_return" where
  "handler T caller trk args =
     (case try_block T caller trk args of
        (trk', effects, Inr result) \<Rightarrow>
          \<lparr>returned = result, tracker = trk', events = effects\<rparr>
      | (trk', effects, Inl error) \<Rightarrow>
          \<lparr>returned = ''An error occurred while analyzing the text: '' @ message error,
           tracker = trk',
           events = effects @ [Log (''text-analyzer raised an error: '' @ message error)]\<rparr>)"

subsection \<open>Two calls of the skill\<close>

definition good_day :: handler_args where
  "good_day = \<lparr>arg_text = Some (JStr ''Good day''), arg_analysis_type = Some (JStr ''sentiment'')\<rparr>"

definition null_text :: handler_args where
  "null_text = \<lparr>arg_text = Some JNull, arg_analysis_type = None\<rparr>"

section \<open>The dispatch core of the spec\<close>

text \<open>
  Modelled from the spec: the Schema Validator, the Skill Registry and the Dispatcher
  of sections 3 and 4 of the spec. The sources hold skills, their schemas and their
  handlers, and no code that validates arguments or dispatches a call.
\<close>

subsection \<open>Schema Validator\<close>

datatype kind = KString | KNumber | KBoolean | KEnum | KArray | KObject

datatype runtime_kind = RNull | RBoolean | RNumber | RString | RArray | RObject

record param_spec =
  p_name :: string
  p_kind :: kind
  p_required :: bool
  p_allowed :: "string list"
  p_min :: "rat option"
  p_max :: "rat option"

record parameterSchema =
  parameters :: "param_spec list"
  additionalProperties :: bool

datatype validation_failure =
    MissingParameter string
  | UnknownParameter string
  | TypeMismatch string kind runtime_kind
  | InvalidEnumValue string "string list"
  | OutOfRange string "rat option" "rat option"

fun runtime_kind_of :: "json \<Rightarrow> runtime_kind" where
  "runtime_kind_of JNull = RNull"
| "runtime_kind_of (JBool b) = RBoolean"
| "runtime_kind_of (JNum i) = RNumber"
| "runtime_kind_of (JStr s) = RString"
| "runtime_kind_of (JArr vs) = RArray"
| "runtime_kind_of (JObj kvs) = RObject"

fun expected_runtime_kind :: "kind \<Rightarrow> runtime_kind" where
  "expected_runtime_kind KString = RString"
| "expected_runtime_kind KNumber = RNumber"
| "expected_runtime_kind KBoolean = RBoolean"
| "expected_runtime_kind KEnum = RString"
| "expected_runtime_kind KArray = RArray"
| "expected_runtime_kind KObject = RObject"

definition spec_of :: "parameterSchema \<Rightarrow> string \<Rightarrow> param_spec option" where
  "spec_of schema k = find (\<lambda>p. p_name p = k) (parameters schema)"

text \<open>The first failure that a check finds in a list, in the order of the list.\<close>

fun first_failure :: "('a \<Rightarrow> validation_failure option) \<Rightarrow> 'a list \<Rightarrow> validation_failure option" where
  "first_failure check [] = None"
| "first_failure check (x # xs) =
     (case check x of Some f \<Rightarrow> Some f | None \<Rightarrow> first_failure check xs)"

text \<open>Modelled from the spec: rule 1, every required parameter name is present.\<close>

definition missing_parameter :: "parameterSchema \<Rightarrow> (string \<times> json) list \<Rightarrow> validation_failure option" where
  "missing_parameter schema args =
     first_failure
       (\<lambda>p. if p_required p \<and> p_name p \<notin> fst ` set args
            then Some (MissingParameter (p_name p)) else None)
       (parameters schema)"

text \<open>
  Modelled from the spec: rule 2, no key is absent from the schema, unless the schema
  allows additional properties.
\<close>

definition unknown_parameter :: "parameterSchema \<Rightarrow> (string \<times> json) list \<Rightarrow> validation_failure option" where
  "unknown_parameter schema args =
     (if additionalProperties schema then None
      else first_failure
             (\<lambda>(k, v). if spec_of schema k = None then Some (UnknownParameter k) else None)
             args)"

text \<open>
  Modelled from the spec: rule 3, the runtime kind of each present value matches its
  declared kind.
\<close>

definition type_mismatch :: "parameterSchema \<Rightarrow> (string \<times> json) list \<Rightarrow> validation_failure option" where
  "type_mismatch schema args =
     first_failure
       (\<lambda>(k, v). case spec_of schema k of
            None \<Rightarrow> None
          | Some p \<Rightarrow>
              if runtime_kind_of v \<noteq> expected_runtime_kind (p_kind p)
              then Some (TypeMismatch k (p_kind p) (runtime_kind_of v)) else None)
       args"

text \<open>
  Modelled from the spec: rule 4, the value of an enumerated string parameter is one of
  the allowed values.
\<close>

definition invalid_enum_value :: "parameterSchema \<Rightarrow> (string \<times> json) list \<Rightarrow> validation_failure option" where
  "invalid_enum_value schema args =
     first_failure
       (\<lambda>(k, v). case (spec_of schema k, v) of
            (Some p, JStr s) \<Rightarrow>
              if p_kind p = KEnum \<and> s \<notin> set (p_allowed p)
              then Some (InvalidEnumValue k (p_allowed p)) else None
          | _ \<Rightarrow> None)
       args"

text \<open>Modelled from the spec: rule 5, a number lies within the declared bounds, inclusive.\<close>

definition out_of_range :: "parameterSchema \<Rightarrow> (string \<times> json) list \<Rightarrow> validation_failure option" where
  "out_of_range schema args =
     first_failure
       (\<lambda>(k, v). case (spec_of schema k, v) of
            (Some p, JNum x) \<Rightarrow>
              if p_kind p = KNumber
                 \<and> ((case p_min p of None \<Rightarrow> False | Some lo \<Rightarrow> x < lo)
                    \<or> (case p_max p of None \<Rightarrow> False | Some hi \<Rightarrow> hi < x))
              then Some (OutOfRange k (p_min p) (p_max p)) else None
          | _ \<Rightarrow> None)
       args"

text \<open>
  Modelled from the spec: the Schema Validator. The rules are applied in this order and
  the first failure wins. The schema of the spec declares no default values, so the
  normalized argument map of an accepted call is the argument map itself.
\<close>

definition validate :: "parameterSchema \<Rightarrow> (string \<times> json) list \<Rightarrow> validation_failure + (string \<times> json) list" where
  "validate schema args =
     (case missing_parameter schema args of Some f \<Rightarrow> Inl f | None \<Rightarrow>
      case unknown_parameter schema args of Some f \<Rightarrow> Inl f | None \<Rightarrow>
      case type_mismatch schema args of Some f \<Rightarrow> Inl f | None \<Rightarrow>
      case invalid_enum_value schema args of Some f \<Rightarrow> Inl f | None \<Rightarrow>
      case out_of_range schema args of Some f \<Rightarrow> Inl f | None \<Rightarrow> Inr args)"

fun show_kind :: "kind \<Rightarrow> string" where
  "show_kind KString = ''string''"
| "show_kind KNumber = ''number''"
| "show_kind KBoolean = ''boolean''"
| "show_kind KEnum = ''enum''"
| "show_kind KArray = ''array''"
| "show_kind KObject = ''object''"

fun show_runtime_kind :: "runtime_kind \<Rightarrow> string" where
  "show_runtime_kind RNull = ''null''"
| "show_runtime_kind RBoolean = ''boolean''"
| "show_runtime_kind RNumber = ''number''"
| "show_runtime_kind RString = ''string''"
| "show_runtime_kind RArray = ''array''"
| "show_runtime_kind RObject = ''object''"

definition show_bound :: "rat option \<Rightarrow> string" where
  "show_bound b = (case b of None \<Rightarrow> ''none'' | Some x \<Rightarrow> show_number x)"

text \<open>The message of a failure, written as the spec writes it: \<open>UnknownParameter(extra)\<close>.\<close>

fun show_failure :: "validation_failure \<Rightarrow> string" where
  "show_failure (MissingParameter n) = ''MissingParameter('' @ n @ '')''"
| "show_failure (UnknownParameter n) = ''UnknownParameter('' @ n @ '')''"
| "show_failure (TypeMismatch n k r) =
     ''TypeMismatch('' @ n @ '', '' @ show_kind k @ '', '' @ show_runtime_kind r @ '')''"
| "show_failure (InvalidEnumValue n allowed) =
     ''InvalidEnumValue('' @ n @ '', ['' @ join '', '' allowed @ ''])''"
| "show_failure (OutOfRange n lo hi) =
     ''OutOfRange('' @ n @ '', '' @ show_bound lo @ '', '' @ show_bound hi @ '')''"

subsection \<open>Skill Registry\<close>

text \<open>
  A handler of the spec is an asynchronous function from the validated arguments to a
  string; a call of it returns a string, fails with an error, or runs into the
  deadline of the Dispatcher.
\<close>

datatype handler_outcome = Returns string | Throws string | TimesOut

record SkillDescriptor =
  sd_name :: string
  sd_description :: string
  sd_parameterSchema :: parameterSchema
  sd_handler :: "(string \<times> json) list \<Rightarrow> handler_outcome"

type_synonym Registry = "SkillDescriptor list"

datatype registry_error = InvalidDescriptor

text \<open>
  Modelled from the spec: the Skill Registry. \<open>register\<close> adds a descriptor or
  replaces the one of the same name (a descriptor without handler is not a value of
  the record type); \<open>resolve\<close> finds the descriptor of a name.
\<close>

fun replace_descriptor :: "SkillDescriptor \<Rightarrow> Registry \<Rightarrow> Registry" where
  "replace_descriptor d [] = [d]"
| "replace_descriptor d (e # es) =
     (if sd_name e = sd_name d then d # es else e # replace_descriptor d es)"

definition register :: "Registry \<Rightarrow> SkillDescriptor \<Rightarrow> registry_error + Registry" where
  "register reg d = (if sd_name d = [] then Inl InvalidDescriptor else Inr (replace_descriptor d reg))"

definition resolve :: "Registry \<Rightarrow> string \<Rightarrow> SkillDescriptor option" where
  "resolve reg n = find (\<lambda>d. sd_name d = n) reg"

subsection \<open>Dispatcher\<close>

record CallRequest =
  skillName :: string
  arguments :: "(string \<times> json) list"

datatype failure_kind = SkillNotFound | ValidationFailed | HandlerError | HandlerTimeout

datatype DispatchOutcome = Success string | Failure failure_kind string

record dispatch_return =
  outcome :: DispatchOutcome
  deduplicator :: "string deduplicator"
  invocations :: nat

text \<open>
  Modelled from the spec: the Dispatcher, which the sources do not contain. The five
  steps of section 4.4, each short-circuiting the next. \<open>invocations\<close> counts the
  calls of the handler that the dispatch made.
\<close>

definition dispatch :: "Registry \<Rightarrow> string deduplicator \<Rightarrow> CallRequest \<Rightarrow> dispatch_return" where
  "dispatch reg dedup req =
     (case resolve reg (skillName req) of
        None \<Rightarrow>
          \<lparr>outcome = Failure SkillNotFound (skillName req), deduplicator = dedup, invocations = 0\<rparr>
      | Some d \<Rightarrow>
         (case validate (sd_parameterSchema d) (arguments req) of
            Inl f \<Rightarrow>
              \<lparr>outcome = Failure ValidationFailed (show_failure f), deduplicator = dedup,
               invocations = 0\<rparr>
          | Inr normalized \<Rightarrow>
             (case getCachedResult dedup (skillName req) normalized of
                Some cached \<Rightarrow>
                  \<lparr>outcome = Success cached, deduplicator = dedup, invocations = 0\<rparr>
              | None \<Rightarrow>
                 (case sd_handler d normalized of
                    Throws m \<Rightarrow>
                      \<lparr>outcome = Failure HandlerError m, deduplicator = dedup, invocations = 1\<rparr>
                  | TimesOut \<Rightarrow>
                      \<lparr>outcome = Failure HandlerTimeout (skillName req), deduplicator = dedup,
                       invocations = 1\<rparr>
                  | Returns result \<Rightarrow>
                      \<lparr>outcome = Success result,
                       deduplicator = recordResult dedup (skillName req) normalized result,
                       invocations = 1\<rparr>))))"

subsection \<open>The text analyzer as a skill of the Registry\<close>

text \<open>
  The parameter schema that the source declares for the skill: \<open>text\<close> is a string,
  \<open>analysis_type\<close> one of four strings, both are required, and
  \<open>additionalProperties\<close> is \<open>false\<close>. The source lists the required names in
  \<open>required\<close>, beside \<open>parameters\<close>; the schema of the spec holds the optionality with
  each parameter. As a handler of the spec the skill is the
  handler of the source, called on the validated arguments with a tracker that holds
  no run.
\<close>

definition textAnalyzer_schema :: parameterSchema where
  "textAnalyzer_schema =
     \<lparr>parameters =
        [\<lparr>p_name = ''text'', p_kind = KString, p_required = True, p_allowed = [],
           p_min = None, p_max = None\<rparr>,
         \<lparr>p_name = ''analysis_type'', p_kind = KEnum, p_required = True,
           p_allowed = [''keywords'', ''sentiment'', ''statistics'', ''readability''],
           p_min = None, p_max = None\<rparr>],
      additionalProperties = False\<rparr>"

definition textAnalyzer :: SkillDescriptor where
  "textAnalyzer =
     \<lparr>sd_name = skill_name,
      sd_description = ''Analyze text to extract statistics, sentiment, keywords, and other metrics. Useful for understanding content at a glance.'',
      sd_parameterSchema = textAnalyzer_schema,
      sd_handler = (\<lambda>args. Returns (returned (handler Deduplicator skill_name fresh_Deduplicator
         \<lparr>arg_text = map_of args ''text'', arg_analysis_type = map_of args ''analysis_type''\<rparr>)))\<rparr>"

subsection \<open>Two call requests\<close>

definition with_extra :: CallRequest where
  "with_extra =
     \<lparr>skillName = ''text-analyzer'',
      arguments = [(''text'', JStr ''hi''), (''analysis_type'', JStr ''keywords''),
                   (''extra'', JNum 1)]\<rparr>"

definition only_extra :: CallRequest where
  "only_extra = \<lparr>skillName = ''text-analyzer'', arguments = [(''extra'', JNum 1)]\<rparr>"

subsection \<open>Three argument maps\<close>

definition good_day_arguments :: "(string \<times> json) list" where
  "good_day_arguments = [(''text'', JStr ''Good day''), (''analysis_type'', JStr ''sentiment'')]"

definition good_day_reordered :: "(string \<times> json) list" where
  "good_day_reordered = [(''analysis_type'', JStr ''sentiment''), (''text'', JStr ''Good day'')]"

definition good_night_arguments :: "(string \<times> json) list" where
  "good_night_arguments = [(''text'', JStr ''Good night''), (''analysis_type'', JStr ''sentiment'')]"

section \<open>Properties of the simulated servers\<close>

text \<open>
  C7, as amended. The stubs return static mock objects. For every object type, filter
  and clock, \<open>queryRecords\<close> returns exactly two records, with the ids rec_001 and
  rec_002 and the names Record 1 and Record 2, both carrying the object type it was
  given, and the records are the same whatever the filter is. \<open>createDocument\<close>
  returns its title and content unchanged with the status success. \<open>updateDocument\<close>
  returns the document id it was given with the status success; a title or content
  that was supplied and is not empty comes back unchanged, and one that is empty or
  was left out comes back as Unchanged (the claim has every input echoed).
\<close>

theorem mcp_stubs_static_mock:
  "map r_id (snd (queryRecords clock objectType flt)) = [''rec_001'', ''rec_002'']
   \<and> map r_objectType (snd (queryRecords clock objectType flt)) = [objectType, objectType]
   \<and> map r_name (snd (queryRecords clock objectType flt)) = [''Record 1'', ''Record 2'']
   \<and> snd (queryRecords clock objectType flt) = snd (queryRecords clock objectType flt')
   \<and> c_title (snd (createDocument now_ms now_iso title content)) = title
   \<and> c_content (snd (createDocument now_ms now_iso title content)) = content
   \<and> c_status (snd (createDocument now_ms now_iso title content)) = ''success''
   \<and> u_id (snd (updateDocument now_iso documentId new_title new_content)) = documentId
   \<and> u_status (snd (updateDocument now_iso documentId new_title new_content)) = ''success''
   \<and> (\<forall>t. new_title = Some t \<and> t \<noteq> [] \<longrightarrow>
          u_title (snd (updateDocument now_iso documentId new_title new_content)) = t)
   \<and> (\<forall>c. new_content = Some c \<and> c \<noteq> [] \<longrightarrow>
          u_content (snd (updateDocument now_iso documentId new_title new_content)) = c)
   \<and> (new_title = None \<or> new_title = Some [] \<longrightarrow>
          u_title (snd (updateDocument now_iso documentId new_title new_content)) = ''Unchanged'')
   \<and> (new_content = None \<or> new_content = Some [] \<longrightarrow>
          u_content (snd (updateDocument now_iso documentId new_title new_content)) = ''Unchanged'')"
  by (auto simp add: queryRecords_def createDocument_def updateDocument_def or_default_def)

theorem mcp_stubs_static_mock_witness:
  "map r_id (snd (queryRecords (''2025-01-01T00:00:00.000Z'', ''2025-01-01T00:00:00.001Z'')
       ''Account'' (Some ''Name = 1''))) = [''rec_001'', ''rec_002'']
   \<and> snd (queryRecords (''2025-01-01T00:00:00.000Z'', ''2025-01-01T00:00:00.001Z'')
       ''Account'' (Some ''Name = 1''))
     = snd (queryRecords (''2025-01-01T00:00:00.000Z'', ''2025-01-01T00:00:00.001Z'')
       ''Account'' None)
   \<and> c_status (snd (createDocument 1700000000000 ''2023-11-14T22:13:20.000Z'' ''Budget'' ''Q1'')) = ''success''
   \<and> u_title (snd (updateDocument ''2023-11-14T22:13:20.000Z'' ''doc_1'' (Some ''Plan'') None)) = ''Plan''
   \<and> u_content (snd (updateDocument ''2023-11-14T22:13:20.000Z'' ''doc_1'' (Some ''Plan'') None)) = ''Unchanged''"
  using mcp_stubs_static_mock [where clock = "(''2025-01-01T00:00:00.000Z'', ''2025-01-01T00:00:00.001Z'')"
      and objectType = "''Account''" and flt = "Some ''Name = 1''" and flt' = None
      and now_ms = 1700000000000 and now_iso = "''2023-11-14T22:13:20.000Z''"
      and title = "''Budget''" and content = "''Q1''" and documentId = "''doc_1''"
      and new_title = "Some ''Plan''" and new_content = None]
  by (simp add: queryRecords_def createDocument_def updateDocument_def or_default_def)

text \<open>
  The claim C7 as it is written fails on \<open>updateDocument\<close>: a title that is supplied as
  the empty string is not echoed.
\<close>

theorem updateDocument_empty_title_not_echoed:
  "u_title (snd (updateDocument ''2023-11-14T22:13:20.000Z'' ''doc_1'' (Some []) (Some ''Body'')))
     = ''Unchanged''
   \<and> u_title (snd (updateDocument ''2023-11-14T22:13:20.000Z'' ''doc_1'' (Some []) (Some ''Body'')))
     \<noteq> []"
  by (simp add: updateDocument_def or_default_def)

text \<open>
  C8. In \<open>updateDocument\<close> the empty string cannot be told from an argument that was left
  out: for every document id, a title that is \<open>""\<close> or omitted gives the title
  Unchanged, and a content that is \<open>""\<close> or omitted gives the content Unchanged.
\<close>

theorem updateDocument_empty_is_absent:
  "(new_title = None \<or> new_title = Some [] \<longrightarrow>
      u_title (snd (updateDocument now_iso documentId new_title new_content)) = ''Unchanged'')
   \<and> (new_content = None \<or> new_content = Some [] \<longrightarrow>
      u_content (snd (updateDocument now_iso documentId new_title new_content)) = ''Unchanged'')
   \<and> snd (updateDocument now_iso documentId (Some []) (Some []))
     = snd (updateDocument now_iso documentId None None)"
  by (auto simp add: updateDocument_def or_default_def)

theorem updateDocument_empty_is_absent_witness:
  "u_title (snd (updateDocument ''2025-01-01T00:00:00.000Z'' ''doc_1'' (Some []) None)) = ''Unchanged''
   \<and> u_content (snd (updateDocument ''2025-01-01T00:00:00.000Z'' ''doc_1'' (Some []) None)) = ''Unchanged''"
  using updateDocument_empty_is_absent [of "Some []" "''2025-01-01T00:00:00.000Z''" "''doc_1''" None]
  by simp

section \<open>The analysis functions\<close>

lemma sentenceCount_positive: "1 \<le> sentenceCount s"
  by (cases "matches is_sentence_end s") (simp_all add: sentenceCount_def)

lemma matches_no_sentence_end: "matches is_sentence_end ''no end here'' = []"
  by (simp add: is_sentence_end_def)

text \<open>
  C9. In \<open>analyzeStatistics\<close> the sentence count is at least 1 for every text, also for
  a text without \<open>.\<close>, \<open>!\<close> and \<open>?\<close>: the divisor of the average of words per sentence
  is not zero, and the average is the rounded quotient, never \<open>NaN\<close> or an infinity.
\<close>

theorem sentences_divisor_nonzero:
  "1 \<le> sentenceCount s
   \<and> js_number (sentenceCount s) \<noteq> Num 0
   \<and> avgWordsPerSentence s = Num (fl (of_nat (wordCount s) / of_nat (sentenceCount s)))"
proof -
  have "sentenceCount s \<noteq> 0" using sentenceCount_positive [of s] by simp
  then show ?thesis
    using sentenceCount_positive [of s]
    by (simp add: avgWordsPerSentence_def js_number_def)
qed

theorem sentences_divisor_nonzero_witness:
  "sentenceCount ''no end here'' = 1
   \<and> avgWordsPerSentence ''no end here'' = Num (fl (of_nat (wordCount ''no end here'') / 1))"
proof -
  have one: "sentenceCount ''no end here'' = 1"
    unfolding sentenceCount_def matches_no_sentence_end by simp
  show ?thesis using sentences_divisor_nonzero [of "''no end here''"] unfolding one by simp
qed

subsection \<open>analyzeKeywords on every text\<close>

lemma mset_count_and_make_run:
  "count_and_make_run comparefn xs = (run, rest) \<Longrightarrow> mset run + mset rest = mset xs"
proof (induction comparefn xs rule: count_and_make_run.induct)
  case (1 comparefn elementHigh elementLow rest')
  let ?xs = "elementHigh # elementLow # rest'"
  let ?n = "2 + run_extent (sort_compare comparefn elementLow elementHigh < 0) comparefn elementLow rest'"
  have "mset (take ?n ?xs) + mset (drop ?n ?xs) = mset ?xs"
    by (metis append_take_drop_id mset_append)
  moreover have "mset run = mset (take ?n ?xs)" and "rest = drop ?n ?xs"
    using 1 by (auto simp: Let_def split: if_splits)
  ultimately show ?case by simp
qed auto

lemma mset_binary_insertion:
  "mset (binary_insertion comparefn run rest) = mset run + mset rest"
proof (induction rest arbitrary: run)
  case Nil
  show ?case by simp
next
  case (Cons pivot rest)
  let ?l = "insertion_point comparefn pivot run 0 (length run)"
  have "mset (take ?l run @ pivot # drop ?l run) = mset run + {#pivot#}"
    by (metis append_take_drop_id mset.simps(2) mset_append union_mset_add_mset_right add.right_neutral)
  then show ?case using Cons [of "take ?l run @ pivot # drop ?l run"] by (simp add: Let_def)
qed

lemma mset_array_sort: "mset (array_sort comparefn xs) = mset xs"
proof -
  obtain run rest where r: "count_and_make_run comparefn xs = (run, rest)"
    by (cases "count_and_make_run comparefn xs")
  then show ?thesis
    using mset_count_and_make_run [OF r] by (simp add: array_sort_def mset_binary_insertion)
qed

lemma set_array_sort: "set (array_sort comparefn xs) = set xs"
  using mset_array_sort [of comparefn xs] by (metis set_mset_mset)

lemma set_object_entries: "set (object_entries obj) = set obj"
  by (auto simp: object_entries_def)

lemma set_topKeywordEntries: "set (topKeywordEntries s) \<subseteq> set (wordFreq s)"
  using set_take_subset [of 10 "array_sort by_frequency (object_entries (wordFreq s))"]
  by (simp add: topKeywordEntries_def set_array_sort set_object_entries)

lemma keys_update: "fst ` set (AList.update k v al) = insert k (fst ` set al)"
  by (induction al) auto

lemma keys_count_word: "fst ` set (count_word freqs w) \<subseteq> insert w (fst ` set freqs)"
  unfolding count_word_def
  by (simp only: keys_update split: option.split freq.split if_split) blast

lemma keys_foldl_count_word: "fst ` set (foldl count_word freqs ws) \<subseteq> fst ` set freqs \<union> set ws"
proof (induction ws arbitrary: freqs)
  case Nil
  show ?case by simp
next
  case (Cons w ws)
  show ?case using Cons.IH [of "count_word freqs w"] keys_count_word [of freqs w] by auto
qed

lemma keys_wordFreq: "fst ` set (wordFreq s) \<subseteq> set (keywordWords s)"
  using keys_foldl_count_word [of "[]" "keywordWords s"] by (simp add: wordFreq_def)

text \<open>
  The parts of C10 that hold for every text: \<open>analyzeKeywords\<close> lists at most 10
  keywords, and none of them is a common word or has 3 characters or less.
\<close>

lemma keywords_at_most_ten: "length (topKeywords s) \<le> 10"
  by (simp add: topKeywords_def topKeywordEntries_def)

lemma keywords_not_common_nor_short:
  assumes "(w, c) \<in> set (topKeywordEntries s)"
  shows "w \<notin> set commonWords \<and> 3 < length w"
proof -
  have "w \<in> fst ` set (wordFreq s)" using assms set_topKeywordEntries by force
  then have "w \<in> set (keywordWords s)" using keys_wordFreq by blast
  then show ?thesis by (simp add: keywordWords_def)
qed

text \<open>
  The order holds where the object \<open>{}\<close> behaves as a dictionary: for a text whose
  counted words name no builtin function of \<open>Object.prototype\<close>, the value under every
  keyword is the number of its occurrences and the keywords are listed with the higher
  count first.
\<close>

lemma wordFreq_counts:
  assumes "\<forall>w \<in> set ws. map_of object_prototype_functions w = None"
  shows "distinct (map fst (foldl count_word [] ws))
    \<and> map_of (foldl count_word [] ws)
        = (\<lambda>w. if w \<in> set ws \<and> w \<noteq> ''__proto__'' then Some (Count (count_list ws w)) else None)"
  using assms
proof (induction ws rule: rev_induct)
  case Nil
  show ?case by auto
next
  case (snoc x ws)
  let ?fq = "foldl count_word [] ws"
  from snoc have d: "distinct (map fst ?fq)"
    and m: "map_of ?fq = (\<lambda>w. if w \<in> set ws \<and> w \<noteq> ''__proto__''
                             then Some (Count (count_list ws w)) else None)"
    and x: "map_of object_prototype_functions x = None"
    by simp_all
  show ?case
  proof (cases "x = ''__proto__''")
    case True
    then have "foldl count_word [] (ws @ [x]) = ?fq" by (simp add: count_word_def)
    then show ?thesis using d m True by (auto simp: fun_eq_iff)
  next
    case False
    show ?thesis
    proof (cases "x \<in> set ws")
      case True
      then have "map_of ?fq x = Some (Count (count_list ws x))" using m False by simp
      then have "foldl count_word [] (ws @ [x]) = AList.update x (Count (count_list ws x + 1)) ?fq"
        using False by (simp add: count_word_def)
      then show ?thesis
        using d m True False by (auto simp: AList.distinct_update AList.update_conv' fun_eq_iff)
    next
      case notin: False
      then have "map_of ?fq x = None" using m by simp
      then have "foldl count_word [] (ws @ [x]) = AList.update x (Count 1) ?fq"
        using False x by (simp add: count_word_def)
      then show ?thesis
        using d m notin False by (auto simp: AList.distinct_update AList.update_conv' fun_eq_iff)
    qed
  qed
qed

lemma wordFreq_entry_counts:
  assumes "\<forall>w \<in> set (keywordWords s). map_of object_prototype_functions w = None"
    and "e \<in> set (wordFreq s)"
  shows "snd e = Count (count_list (keywordWords s) (fst e))"
proof -
  obtain w c where e: "e = (w, c)" by (cases e)
  from wordFreq_counts [OF assms(1)]
  have d: "distinct (map fst (wordFreq s))"
    and m: "map_of (wordFreq s) w
        = (if w \<in> set (keywordWords s) \<and> w \<noteq> ''__proto__''
           then Some (Count (count_list (keywordWords s) w)) else None)"
    unfolding wordFreq_def by simp_all
  have "map_of (wordFreq s) w = Some c"
    using d assms(2) e by (simp only: map_of_eq_Some_iff)
  then show ?thesis using m e by (simp split: if_splits)
qed

lemma sort_compare_counts:
  assumes "snd x = Count (g (fst x))" and "snd y = Count (g (fst y))"
  shows "sort_compare by_frequency x y = int (g (fst y)) - int (g (fst x))"
  using assms by (simp add: sort_compare_def by_frequency_def)

lemma run_extent_ascending:
  assumes "\<forall>e \<in> set (previous # xs). snd e = Count (g (fst e))"
  shows "sorted_wrt (\<lambda>a b. g (fst b) \<le> g (fst a))
           (previous # take (run_extent False by_frequency previous xs) xs)"
  using assms
proof (induction xs arbitrary: previous)
  case Nil
  show ?case by simp
next
  case (Cons current rest)
  have c: "sort_compare by_frequency current previous = int (g (fst previous)) - int (g (fst current))"
    using Cons.prems by (simp add: sort_compare_counts)
  show ?case
  proof (cases "sort_compare by_frequency current previous < 0")
    case True
    then show ?thesis by simp
  next
    case False
    then have le: "g (fst current) \<le> g (fst previous)" using c by simp
    have tl: "sorted_wrt (\<lambda>a b. g (fst b) \<le> g (fst a))
        (current # take (run_extent False by_frequency current rest) rest)"
      using Cons.IH [of current] Cons.prems by simp
    then have "\<forall>e \<in> set (take (run_extent False by_frequency current rest) rest).
        g (fst e) \<le> g (fst current)" by simp
    then have "\<forall>e \<in> set (current # take (run_extent False by_frequency current rest) rest).
        g (fst e) \<le> g (fst previous)" using le by auto
    then show ?thesis using tl False by simp
  qed
qed

lemma run_extent_descending:
  assumes "\<forall>e \<in> set (previous # xs). snd e = Count (g (fst e))"
  shows "sorted_wrt (\<lambda>a b. g (fst a) < g (fst b))
           (previous # take (run_extent True by_frequency previous xs) xs)"
  using assms
proof (induction xs arbitrary: previous)
  case Nil
  show ?case by simp
next
  case (Cons current rest)
  have c: "sort_compare by_frequency current previous = int (g (fst previous)) - int (g (fst current))"
    using Cons.prems by (simp add: sort_compare_counts)
  show ?case
  proof (cases "0 \<le> sort_compare by_frequency current previous")
    case True
    then show ?thesis by simp
  next
    case False
    then have lt: "g (fst previous) < g (fst current)" using c by simp
    have tl: "sorted_wrt (\<lambda>a b. g (fst a) < g (fst b))
        (current # take (run_extent True by_frequency current rest) rest)"
      using Cons.IH [of current] Cons.prems by simp
    then have "\<forall>e \<in> set (take (run_extent True by_frequency current rest) rest).
        g (fst current) < g (fst e)" by simp
    then have "\<forall>e \<in> set (current # take (run_extent True by_frequency current rest) rest).
        g (fst previous) < g (fst e)" using lt by auto
    then show ?thesis using tl False by simp
  qed
qed

lemma run_by_frequency:
  assumes "\<forall>e \<in> set xs. snd e = Count (g (fst e))"
    and "count_and_make_run by_frequency xs = (run, rest)"
  shows "sorted_wrt (\<lambda>a b. g (fst b) \<le> g (fst a)) run"
proof (cases xs)
  case Nil
  then show ?thesis using assms(2) by simp
next
  case (Cons elementHigh ys)
  show ?thesis
  proof (cases ys)
    case Nil
    then show ?thesis using assms(2) Cons by auto
  next
    case (Cons elementLow zs)
    note xs = \<open>xs = elementHigh # ys\<close> Cons
    have c: "sort_compare by_frequency elementLow elementHigh
        = int (g (fst elementHigh)) - int (g (fst elementLow))"
      using assms(1) xs by (simp add: sort_compare_counts)
    show ?thesis
    proof (cases "sort_compare by_frequency elementLow elementHigh < 0")
      case True
      then have lt: "g (fst elementHigh) < g (fst elementLow)" using c by simp
      have tl: "sorted_wrt (\<lambda>a b. g (fst a) < g (fst b))
          (elementLow # take (run_extent True by_frequency elementLow zs) zs)"
        using run_extent_descending [of elementLow zs g] assms(1) xs by simp
      then have "\<forall>e \<in> set (take (run_extent True by_frequency elementLow zs) zs).
          g (fst elementLow) < g (fst e)" by simp
      then have "\<forall>e \<in> set (elementLow # take (run_extent True by_frequency elementLow zs) zs).
          g (fst elementHigh) < g (fst e)" using lt by auto
      then have "sorted_wrt (\<lambda>a b. g (fst a) < g (fst b))
          (elementHigh # elementLow # take (run_extent True by_frequency elementLow zs) zs)"
        using tl by simp
      then have "sorted_wrt (\<lambda>a b. g (fst b) < g (fst a))
          (rev (elementHigh # elementLow # take (run_extent True by_frequency elementLow zs) zs))"
        by (simp only: sorted_wrt_rev)
      then have "sorted_wrt (\<lambda>a b. g (fst b) \<le> g (fst a))
          (rev (elementHigh # elementLow # take (run_extent True by_frequency elementLow zs) zs))"
        by (rule sorted_wrt_mono_rel [rotated]) simp
      moreover have "run = rev (elementHigh # elementLow # take (run_extent True by_frequency elementLow zs) zs)"
        using assms(2) xs True by (simp add: Let_def)
      ultimately show ?thesis by simp
    next
      case False
      then have le: "g (fst elementLow) \<le> g (fst elementHigh)" using c by simp
      have tl: "sorted_wrt (\<lambda>a b. g (fst b) \<le> g (fst a))
          (elementLow # take (run_extent False by_frequency elementLow zs) zs)"
        using run_extent_ascending [of elementLow zs g] assms(1) xs by simp
      then have "\<forall>e \<in> set (take (run_extent False by_frequency elementLow zs) zs).
          g (fst e) \<le> g (fst elementLow)" by simp
      then have "\<forall>e \<in> set (elementLow # take (run_extent False by_frequency elementLow zs) zs).
          g (fst e) \<le> g (fst elementHigh)" using le by auto
      then have "sorted_wrt (\<lambda>a b. g (fst b) \<le> g (fst a))
          (elementHigh # elementLow # take (run_extent False by_frequency elementLow zs) zs)"
        using tl by simp
      moreover have "run = elementHigh # elementLow # take (run_extent False by_frequency elementLow zs) zs"
        using assms(2) xs False by (simp add: Let_def)
      ultimately show ?thesis by simp
    qed
  qed
qed

lemma insertion_point_sorted:
  assumes "\<forall>i < length xs. sort_compare comparefn pivot (xs ! i) = int (k (xs ! i)) - int (k pivot)"
    and "sorted_wrt (\<lambda>a b. k b \<le> k a) xs"
    and "left \<le> right" and "right \<le> length xs"
    and "\<forall>i < left. k pivot \<le> k (xs ! i)"
    and "\<forall>i. right \<le> i \<and> i < length xs \<longrightarrow> k (xs ! i) < k pivot"
  shows "insertion_point comparefn pivot xs left right \<le> length xs
    \<and> (\<forall>i < insertion_point comparefn pivot xs left right. k pivot \<le> k (xs ! i))
    \<and> (\<forall>i. insertion_point comparefn pivot xs left right \<le> i \<and> i < length xs
          \<longrightarrow> k (xs ! i) < k pivot)"
  using assms
proof (induction comparefn pivot xs left right rule: insertion_point.induct)
  case (1 comparefn pivot xs left right)
  show ?case
  proof (cases "left < right")
    case False
    then have "insertion_point comparefn pivot xs left right = left"
      by (subst insertion_point.simps) simp
    moreover have "left = right" using False "1.prems"(3) by simp
    ultimately show ?thesis using "1.prems" by simp
  next
    case True
    define mid where "mid = left + (right - left) div 2"
    have mid: "left \<le> mid" "mid < right" using True by (simp_all add: mid_def)
    then have m: "mid < length xs" using "1.prems"(4) by simp
    have c: "sort_compare comparefn pivot (xs ! mid) = int (k (xs ! mid)) - int (k pivot)"
      using "1.prems"(1) m by simp
    show ?thesis
    proof (cases "sort_compare comparefn pivot (xs ! mid) < 0")
      case less: True
      then have lt: "k (xs ! mid) < k pivot" using c by simp
      have eq: "insertion_point comparefn pivot xs left right
          = insertion_point comparefn pivot xs left mid"
        using True less by (subst insertion_point.simps) (simp add: mid_def Let_def)
      have after: "\<forall>i. mid \<le> i \<and> i < length xs \<longrightarrow> k (xs ! i) < k pivot"
      proof (intro allI impI)
        fix i assume i: "mid \<le> i \<and> i < length xs"
        have "k (xs ! i) \<le> k (xs ! mid)"
        proof (cases "i = mid")
          case True then show ?thesis by simp
        next
          case False
          then have "mid < i" using i by simp
          then show ?thesis using "1.prems"(2) i by (simp add: sorted_wrt_iff_nth_less)
        qed
        then show "k (xs ! i) < k pivot" using lt by simp
      qed
      have "mid \<le> length xs" using m by simp
      show ?thesis
        unfolding eq
        using "1.IH"(1) [OF True mid_def less "1.prems"(1,2) mid(1) \<open>mid \<le> length xs\<close> "1.prems"(5) after]
        by simp
    next
      case geq: False
      then have ge: "k pivot \<le> k (xs ! mid)" using c by simp
      have eq: "insertion_point comparefn pivot xs left right
          = insertion_point comparefn pivot xs (mid + 1) right"
        using True geq by (subst insertion_point.simps) (simp add: mid_def Let_def)
      have before: "\<forall>i < mid + 1. k pivot \<le> k (xs ! i)"
      proof (intro allI impI)
        fix i assume i: "i < mid + 1"
        have "k (xs ! mid) \<le> k (xs ! i)"
        proof (cases "i = mid")
          case True then show ?thesis by simp
        next
          case False
          then have "i < mid" using i by simp
          then show ?thesis using "1.prems"(2) m by (simp add: sorted_wrt_iff_nth_less)
        qed
        then show "k pivot \<le> k (xs ! i)" using ge by simp
      qed
      have "mid + 1 \<le> right" using mid(2) by simp
      show ?thesis
        unfolding eq
        using "1.IH"(2) [OF True mid_def geq "1.prems"(1,2) \<open>mid + 1 \<le> right\<close> "1.prems"(4) before "1.prems"(6)]
        by simp
    qed
  qed
qed

lemma insertion_point_by_frequency:
  assumes "\<forall>e \<in> set (pivot # xs). snd e = Count (g (fst e))"
    and "sorted_wrt (\<lambda>a b. g (fst b) \<le> g (fst a)) xs"
  shows "insertion_point by_frequency pivot xs 0 (length xs) \<le> length xs
    \<and> (\<forall>i < insertion_point by_frequency pivot xs 0 (length xs). g (fst pivot) \<le> g (fst (xs ! i)))
    \<and> (\<forall>i. insertion_point by_frequency pivot xs 0 (length xs) \<le> i \<and> i < length xs
          \<longrightarrow> g (fst (xs ! i)) < g (fst pivot))"
proof (rule insertion_point_sorted [where k = "\<lambda>e. g (fst e)"])
  show "\<forall>i < length xs. sort_compare by_frequency pivot (xs ! i)
      = int (g (fst (xs ! i))) - int (g (fst pivot))"
    using assms(1) by (simp add: sort_compare_counts)
qed (use assms(2) in simp_all)

lemma insert_by_frequency:
  assumes "\<forall>e \<in> set (pivot # xs). snd e = Count (g (fst e))"
    and "sorted_wrt (\<lambda>a b. g (fst b) \<le> g (fst a)) xs"
  shows "sorted_wrt (\<lambda>a b. g (fst b) \<le> g (fst a))
    (take (insertion_point by_frequency pivot xs 0 (length xs)) xs
       @ pivot # drop (insertion_point by_frequency pivot xs 0 (length xs)) xs)"
proof -
  let ?l = "insertion_point by_frequency pivot xs 0 (length xs)"
  have p: "?l \<le> length xs \<and> (\<forall>i < ?l. g (fst pivot) \<le> g (fst (xs ! i)))
      \<and> (\<forall>i. ?l \<le> i \<and> i < length xs \<longrightarrow> g (fst (xs ! i)) < g (fst pivot))"
    by (rule insertion_point_by_frequency [OF assms])
  have before: "\<forall>e \<in> set (take ?l xs). g (fst pivot) \<le> g (fst e)"
  proof
    fix e assume "e \<in> set (take ?l xs)"
    then obtain i where "i < length (take ?l xs)" "take ?l xs ! i = e"
      by (auto simp: in_set_conv_nth)
    then show "g (fst pivot) \<le> g (fst e)" using p by auto
  qed
  have after: "\<forall>e \<in> set (drop ?l xs). g (fst e) \<le> g (fst pivot)"
  proof
    fix e assume "e \<in> set (drop ?l xs)"
    then obtain i where i: "i < length (drop ?l xs)" "drop ?l xs ! i = e"
      by (auto simp: in_set_conv_nth)
    then have "g (fst (xs ! (?l + i))) < g (fst pivot)" using p by auto
    then show "g (fst e) \<le> g (fst pivot)" using i p by auto
  qed
  have parts: "sorted_wrt (\<lambda>a b. g (fst b) \<le> g (fst a)) (take ?l xs)
      \<and> sorted_wrt (\<lambda>a b. g (fst b) \<le> g (fst a)) (drop ?l xs)"
    using assms(2) by (metis append_take_drop_id sorted_wrt_append)
  have cross: "\<forall>a \<in> set (take ?l xs). \<forall>b \<in> set (drop ?l xs). g (fst b) \<le> g (fst a)"
    using before after order_trans by blast
  show ?thesis using parts before after cross by (simp add: sorted_wrt_append)
qed

lemma binary_insertion_by_frequency:
  assumes "\<forall>e \<in> set (run @ rest). snd e = Count (g (fst e))"
    and "sorted_wrt (\<lambda>a b. g (fst b) \<le> g (fst a)) run"
  shows "sorted_wrt (\<lambda>a b. g (fst b) \<le> g (fst a)) (binary_insertion by_frequency run rest)"
  using assms
proof (induction rest arbitrary: run)
  case Nil
  then show ?case by simp
next
  case (Cons pivot rest)
  let ?l = "insertion_point by_frequency pivot run 0 (length run)"
  let ?run = "take ?l run @ pivot # drop ?l run"
  have s: "sorted_wrt (\<lambda>a b. g (fst b) \<le> g (fst a)) ?run"
    using Cons.prems by (intro insert_by_frequency) simp_all
  have "set ?run = insert pivot (set run)"
    by (metis append_take_drop_id list.simps(15) set_append Un_insert_right)
  then have "\<forall>e \<in> set (?run @ rest). snd e = Count (g (fst e))"
    using Cons.prems(1) by auto
  then show ?case using Cons.IH [of ?run] s by (simp add: Let_def)
qed

lemma array_sort_by_frequency:
  assumes "\<forall>e \<in> set xs. snd e = Count (g (fst e))"
  shows "sorted_wrt (\<lambda>a b. g (fst b) \<le> g (fst a)) (array_sort by_frequency xs)"
proof -
  obtain run rest where r: "count_and_make_run by_frequency xs = (run, rest)"
    by (cases "count_and_make_run by_frequency xs")
  have "set (run @ rest) = set xs"
    using mset_count_and_make_run [OF r] by (metis mset_append set_mset_mset)
  then have "\<forall>e \<in> set (run @ rest). snd e = Count (g (fst e))" using assms by simp
  then show ?thesis
    using run_by_frequency [OF assms r] r
    by (simp add: array_sort_def binary_insertion_by_frequency)
qed

lemma keywords_sorted_by_count:
  assumes "\<forall>w \<in> set (keywordWords s). map_of object_prototype_functions w = None"
  shows "sorted_wrt (\<lambda>a b. count_list (keywordWords s) (fst b) \<le> count_list (keywordWords s) (fst a))
           (topKeywordEntries s)
    \<and> (\<forall>e \<in> set (topKeywordEntries s). snd e = Count (count_list (keywordWords s) (fst e)))"
proof -
  have entries: "\<forall>e \<in> set (object_entries (wordFreq s)).
      snd e = Count (count_list (keywordWords s) (fst e))"
    using wordFreq_entry_counts [OF assms] by (simp add: set_object_entries)
  then have "sorted_wrt (\<lambda>a b. count_list (keywordWords s) (fst b) \<le> count_list (keywordWords s) (fst a))
      (array_sort by_frequency (object_entries (wordFreq s)))"
    by (rule array_sort_by_frequency)
  then have "sorted_wrt (\<lambda>a b. count_list (keywordWords s) (fst b) \<le> count_list (keywordWords s) (fst a))
      (topKeywordEntries s)"
    unfolding topKeywordEntries_def by (rule sorted_wrt_take)
  moreover have "\<forall>e \<in> set (topKeywordEntries s). snd e = Count (count_list (keywordWords s) (fst e))"
    using wordFreq_entry_counts [OF assms] set_topKeywordEntries by blast
  ultimately show ?thesis by simp
qed

text \<open>
  The counted words are lowercased, and \<open>constructor\<close> is the one builtin function of
  \<open>Object.prototype\<close> whose name has no capital letter: the order holds for every text
  that does not contain the word \<open>constructor\<close>.
\<close>

lemma toLowerCase_unit_not_capital:
  "\<not> (65 \<le> code_unit (toLowerCase_unit c) \<and> code_unit (toLowerCase_unit c) \<le> 90)"
  by (auto simp: toLowerCase_unit_def code_unit_def Let_def)

lemma matches_chars: "w \<in> set (matches P xs) \<Longrightarrow> set w \<subseteq> set xs"
proof (induction P xs rule: matches.induct)
  case (1 P)
  then show ?case by simp
next
  case (2 P c cs)
  show ?case
  proof (cases "P c")
    case True
    with 2 have "w = c # takeWhile P cs \<or> w \<in> set (matches P (dropWhile P cs))" by simp
    then show ?thesis
    proof
      assume "w = c # takeWhile P cs"
      then show ?thesis using set_takeWhileD by fastforce
    next
      assume "w \<in> set (matches P (dropWhile P cs))"
      then have "set w \<subseteq> set (dropWhile P cs)" using 2 True by simp
      then show ?thesis using set_dropWhileD by fastforce
    qed
  next
    case False
    with 2 show ?thesis by auto
  qed
qed

lemma keywordWords_not_capital:
  assumes "w \<in> set (keywordWords s)" and "c \<in> set w"
  shows "\<not> (65 \<le> code_unit c \<and> code_unit c \<le> 90)"
proof -
  have "w \<in> set (matches is_word_char (toLowerCase s))"
    using assms(1) by (simp add: keywordWords_def)
  then have "c \<in> set (toLowerCase s)" using matches_chars assms(2) by blast
  then obtain d where "c = toLowerCase_unit d" by (auto simp: toLowerCase_def)
  then show ?thesis using toLowerCase_unit_not_capital by simp
qed

lemma inherited_name_is_constructor:
  assumes "w \<in> set (keywordWords s)" and "map_of object_prototype_functions w \<noteq> None"
  shows "w = ''constructor''"
proof -
  have names: "w \<in> set (map fst object_prototype_functions)"
    using assms(2) by (metis map_of_eq_None_iff set_map)
  have capital: "\<And>c. c \<in> set w \<Longrightarrow> c \<notin> {CHR ''G'', CHR ''S'', CHR ''O'', CHR ''P'', CHR ''E'', CHR ''L''}"
  proof -
    fix c assume "c \<in> set w"
    then have "\<not> (65 \<le> code_unit c \<and> code_unit c \<le> 90)"
      using keywordWords_not_capital [OF assms(1)] by simp
    then show "c \<notin> {CHR ''G'', CHR ''S'', CHR ''O'', CHR ''P'', CHR ''E'', CHR ''L''}"
      by (auto simp: code_unit_def)
  qed
  show ?thesis
  proof (rule ccontr)
    assume "w \<noteq> ''constructor''"
    with names have "w \<in> {''__defineGetter__'', ''__defineSetter__'', ''hasOwnProperty'',
        ''__lookupGetter__'', ''__lookupSetter__'', ''isPrototypeOf'', ''propertyIsEnumerable'',
        ''toString'', ''valueOf'', ''toLocaleString''}"
      by (simp add: object_prototype_functions_def)
    then have "\<exists>c \<in> set w. c \<in> {CHR ''G'', CHR ''S'', CHR ''O'', CHR ''P'', CHR ''E'', CHR ''L''}"
      by (elim insertE emptyE) simp_all
    then show False using capital by blast
  qed
qed

lemma keywords_sorted_without_constructor:
  assumes "''constructor'' \<notin> set (keywordWords s)"
  shows "sorted_wrt (\<lambda>a b. count_list (keywordWords s) (fst b) \<le> count_list (keywordWords s) (fst a))
           (topKeywordEntries s)
    \<and> (\<forall>e \<in> set (topKeywordEntries s). snd e = Count (count_list (keywordWords s) (fst e)))"
proof (rule keywords_sorted_by_count)
  show "\<forall>w \<in> set (keywordWords s). map_of object_prototype_functions w = None"
    using assms inherited_name_is_constructor by blast
qed

subsection \<open>analyzeKeywords on a text with the word constructor\<close>

lemma toLowerCase_constructor: "toLowerCase ''constructor bbbb bbbb'' = ''constructor bbbb bbbb''"
  by (simp add: toLowerCase_def toLowerCase_unit_def code_unit_def)

lemma matches_constructor:
  "matches is_word_char ''constructor bbbb bbbb'' = [''constructor'', ''bbbb'', ''bbbb'']"
  by (simp add: is_word_char_def code_unit_def)

lemma keywordWords_constructor:
  "keywordWords ''constructor bbbb bbbb'' = [''constructor'', ''bbbb'', ''bbbb'']"
  unfolding keywordWords_def toLowerCase_constructor matches_constructor
  by (simp add: commonWords_def)

lemma wordFreq_constructor:
  "wordFreq ''constructor bbbb bbbb'' = [(''constructor'', NativeText ''Object'' 1), (''bbbb'', Count 2)]"
  unfolding wordFreq_def keywordWords_constructor
  by (simp add: count_word_def object_prototype_functions_def)

lemma object_entries_constructor:
  "object_entries [(''constructor'', NativeText ''Object'' 1), (''bbbb'', Count 2)]
     = [(''constructor'', NativeText ''Object'' 1), (''bbbb'', Count 2)]"
  by (simp add: object_entries_def is_array_index_def is_digit_def)

lemma array_sort_constructor:
  "array_sort by_frequency [(''constructor'', NativeText ''Object'' 1), (''bbbb'', Count 2)]
     = [(''constructor'', NativeText ''Object'' 1), (''bbbb'', Count 2)]"
  by (simp add: array_sort_def sort_compare_def by_frequency_def)

lemma topKeywordEntries_constructor:
  "topKeywordEntries ''constructor bbbb bbbb''
     = [(''constructor'', NativeText ''Object'' 1), (''bbbb'', Count 2)]"
  unfolding topKeywordEntries_def wordFreq_constructor object_entries_constructor
    array_sort_constructor
  by simp

lemma show_nat_2: "show_nat 2 = ''2''"
  by (subst show_nat.simps) (simp add: digit_char_def)

lemma keywordsReport_constructor:
  "keywordsReport ''constructor bbbb bbbb''
     = ''**Top Keywords:** constructor (function Object() { [native code] }1), bbbb (2)''"
  unfolding keywordsReport_def topKeywords_def topKeywordEntries_constructor
  by (simp add: show_nat_2)

text \<open>
  C10 at the text \<open>constructor bbbb bbbb\<close>. The claim has the keywords in the order of
  their occurrence counts, the higher count first. Here \<open>analyzeKeywords\<close> lists
  \<open>constructor\<close>, which occurs once, before \<open>bbbb\<close>, which occurs twice, and prints the
  source text of a builtin function where the count of \<open>constructor\<close> should be:
  \<open>wordFreq\<close> is the object \<open>{}\<close>, which inherits a property \<open>constructor\<close>, so the first
  \<open>wordFreq[word] || 0\<close> is not 0 for this word, the value stored is a string, and the
  comparison of the sort is \<open>NaN\<close>.
\<close>

theorem analyzeKeywords_constructor:
  "analyzeKeywords (JStr ''constructor bbbb bbbb'')
     = Inr ''**Top Keywords:** constructor (function Object() { [native code] }1), bbbb (2)''
   \<and> map fst (topKeywordEntries ''constructor bbbb bbbb'') = [''constructor'', ''bbbb'']
   \<and> count_list (keywordWords ''constructor bbbb bbbb'') ''constructor'' = 1
   \<and> count_list (keywordWords ''constructor bbbb bbbb'') ''bbbb'' = 2"
  unfolding topKeywordEntries_constructor keywordWords_constructor
  by (simp add: analyzeKeywords_def keywordsReport_constructor)

subsection \<open>analyzeKeywords on a text with six counted words\<close>

text \<open>
  Where a comparison is \<open>NaN\<close> the place of an entry depends on the pairs that the sort
  compares. In this text \<open>zzzz\<close> occurs twice and is listed first; \<open>constructor\<close> stays
  where it was, between words that occur once.
\<close>

lemma toLowerCase_six_words:
  "toLowerCase ''aaaa bbbb dddd constructor yyyy zzzz zzzz''
     = ''aaaa bbbb dddd constructor yyyy zzzz zzzz''"
  by (simp add: toLowerCase_def toLowerCase_unit_def code_unit_def)

lemma matches_six_words:
  "matches is_word_char ''aaaa bbbb dddd constructor yyyy zzzz zzzz''
     = [''aaaa'', ''bbbb'', ''dddd'', ''constructor'', ''yyyy'', ''zzzz'', ''zzzz'']"
  by (simp add: is_word_char_def code_unit_def)

lemma keywordWords_six_words:
  "keywordWords ''aaaa bbbb dddd constructor yyyy zzzz zzzz''
     = [''aaaa'', ''bbbb'', ''dddd'', ''constructor'', ''yyyy'', ''zzzz'', ''zzzz'']"
  unfolding keywordWords_def toLowerCase_six_words matches_six_words
  by (simp add: commonWords_def)

lemma wordFreq_six_words:
  "wordFreq ''aaaa bbbb dddd constructor yyyy zzzz zzzz''
     = [(''aaaa'', Count 1), (''bbbb'', Count 1), (''dddd'', Count 1),
        (''constructor'', NativeText ''Object'' 1), (''yyyy'', Count 1), (''zzzz'', Count 2)]"
  unfolding wordFreq_def keywordWords_six_words
  by (simp add: count_word_def object_prototype_functions_def)

lemma object_entries_six_words:
  "object_entries [(''aaaa'', Count 1), (''bbbb'', Count 1), (''dddd'', Count 1),
        (''constructor'', NativeText ''Object'' 1), (''yyyy'', Count 1), (''zzzz'', Count 2)]
     = [(''aaaa'', Count 1), (''bbbb'', Count 1), (''dddd'', Count 1),
        (''constructor'', NativeText ''Object'' 1), (''yyyy'', Count 1), (''zzzz'', Count 2)]"
  by (simp add: object_entries_def is_array_index_def is_digit_def)

lemma array_sort_six_entries:
  "array_sort by_frequency
     [(''aaaa'', Count 1), (''bbbb'', Count 1), (''dddd'', Count 1),
      (''constructor'', NativeText ''Object'' 1), (''yyyy'', Count 1), (''zzzz'', Count 2)]
   = [(''zzzz'', Count 2), (''aaaa'', Count 1), (''bbbb'', Count 1), (''dddd'', Count 1),
      (''constructor'', NativeText ''Object'' 1), (''yyyy'', Count 1)]"
  by (simp add: array_sort_def sort_compare_def by_frequency_def insertion_point.simps)

lemma topKeywordEntries_six_words:
  "topKeywordEntries ''aaaa bbbb dddd constructor yyyy zzzz zzzz''
     = [(''zzzz'', Count 2), (''aaaa'', Count 1), (''bbbb'', Count 1), (''dddd'', Count 1),
        (''constructor'', NativeText ''Object'' 1), (''yyyy'', Count 1)]"
  unfolding topKeywordEntries_def wordFreq_six_words object_entries_six_words
    array_sort_six_entries
  by simp

lemma show_nat_1: "show_nat (Suc 0) = ''1''"
  by (subst show_nat.simps) (simp add: digit_char_def)

lemma keywordsReport_six_words:
  "keywordsReport ''aaaa bbbb dddd constructor yyyy zzzz zzzz''
     = ''**Top Keywords:** zzzz (2), aaaa (1), bbbb (1), dddd (1), constructor (function Object() { [native code] }1), yyyy (1)''"
  unfolding keywordsReport_def topKeywords_def topKeywordEntries_six_words
  by (simp add: show_nat_2 show_nat_1)

section \<open>The handler of the text analyzer\<close>

lemma isDuplicate_trackRun: "isDuplicate (trackRun trk n p) n p"
  by (simp add: isDuplicate_def trackRun_def recordResult_def)

lemma fresh_not_duplicate: "\<not> isDuplicate fresh_Deduplicator n p"
  by (simp add: isDuplicate_def fresh_Deduplicator_def)

lemma Deduplicator_methods:
  "tracker_isDuplicate Deduplicator = isDuplicate" "tracker_trackRun Deduplicator = trackRun"
  by (simp_all add: Deduplicator_def)

lemma toLowerCase_good_day: "toLowerCase ''Good day'' = ''good day''"
  by (simp add: toLowerCase_def toLowerCase_unit_def code_unit_def char_of_eq_iff)

lemma positiveCount_good_day: "positiveCount ''Good day'' = 1"
  unfolding positiveCount_def toLowerCase_good_day positiveWords_def
  by (simp add: count_matches.simps)

lemma negativeCount_good_day: "negativeCount ''Good day'' = 0"
  unfolding negativeCount_def toLowerCase_good_day negativeWords_def
  by (simp add: count_matches.simps)

lemma show_nat_digit: "n < 10 \<Longrightarrow> show_nat n = [digit_char n]"
  by (subst show_nat.simps) simp

lemma sentimentReport_good_day:
  "sentimentReport ''Good day'' = ''**Sentiment:** Positive (Positive: 1, Negative: 0)''"
  unfolding sentimentReport_def positiveCount_good_day negativeCount_good_day
  by (simp add: show_nat_digit digit_char_def)

lemma analyze_good_day:
  "selected (analysis_type_of good_day) = Some (Sentiment, ''sentiment'')"
  "analyze Sentiment (text_of good_day) = Inr ''**Sentiment:** Positive (Positive: 1, Negative: 0)''"
  by (simp_all add: good_day_def analysis_type_of_def text_of_def analyzeSentiment_def
      sentimentReport_good_day)

lemma analyze_null_text:
  "selected (analysis_type_of null_text) = Some (Keywords, ''keywords'')"
  "analyze Keywords (text_of null_text)
     = Inl (TypeError (''Cannot read properties of null (reading '' @ [CHR 0x27] @ ''toLowerCase'' @ [CHR 0x27] @ '')''))"
  by (simp_all add: null_text_def analysis_type_of_def text_of_def analyzeKeywords_def)

lemma analysis_result_is_no_notice:
  assumes "analyze a v = Inr r"
  shows "r \<noteq> ''This text has already been analyzed. The results are shown above.''"
proof -
  have "hd r = CHR ''*''"
    using assms
    by (cases a; cases v)
      (auto simp: analyzeKeywords_def analyzeSentiment_def analyzeStatistics_def
        analyzeReadability_def keywordsReport_def sentimentReport_def statisticsReport_def
        readabilityReport_def Let_def)
  then show ?thesis by auto
qed

lemma analysis_of_no_string_throws:
  assumes "\<forall>s. v \<noteq> JStr s"
  shows "\<exists>m. analyze a v = Inl (TypeError m)"
  using assms
  by (cases a; cases v)
    (simp_all add: analyzeKeywords_def analyzeSentiment_def analyzeStatistics_def
      analyzeReadability_def)

text \<open>
  C1, as amended. The claim says that a second call with the same arguments returns the
  same text as the first. The handler returns a fixed notice instead: when a call of
  the text analyzer is not a duplicate and its analysis completes, the call runs that
  one analysis function, returns its result and has the run tracked; a second call with
  the same \<open>{text, analysis_type}\<close> in the same session runs no analysis function, leaves
  the tracker as it is and returns the notice that the text has already been analyzed,
  which is never the text of the first call. The tracker is any tracker that reports
  the run it has just recorded.
\<close>

theorem repeated_call_returns_notice:
  assumes "\<not> tracker_isDuplicate T trk skill_name (params_of args)"
    and "selected (analysis_type_of args) = Some (a, n)"
    and "analyze a (text_of args) = Inr r"
    and "tracker_isDuplicate T (tracker_trackRun T trk skill_name (params_of args))
           skill_name (params_of args)"
  shows "returned (handler T caller trk args) = r
    \<and> events (handler T caller trk args)
        = [Run a, Introspect (caller @ '': Analyzing text for '' @ n @ ''.'')]
    \<and> tracker (handler T caller trk args) = tracker_trackRun T trk skill_name (params_of args)
    \<and> returned (handler T caller (tracker (handler T caller trk args)) args)
        = ''This text has already been analyzed. The results are shown above.''
    \<and> events (handler T caller (tracker (handler T caller trk args)) args)
        = [Log (skill_name @ '' was called with duplicate parameters, skipping.'')]
    \<and> tracker (handler T caller (tracker (handler T caller trk args)) args)
        = tracker (handler T caller trk args)
    \<and> returned (handler T caller (tracker (handler T caller trk args)) args)
        \<noteq> returned (handler T caller trk args)"
  using assms analysis_result_is_no_notice [OF assms(3)]
  by (simp add: handler_def try_block_def del: analyze.simps)

theorem repeated_call_returns_notice_witness:
  "returned (handler Deduplicator ''agent'' fresh_Deduplicator good_day)
     = ''**Sentiment:** Positive (Positive: 1, Negative: 0)''
   \<and> events (handler Deduplicator ''agent'' fresh_Deduplicator good_day)
     = [Run Sentiment, Introspect ''agent: Analyzing text for sentiment.'']
   \<and> returned (handler Deduplicator ''agent''
        (tracker (handler Deduplicator ''agent'' fresh_Deduplicator good_day)) good_day)
     = ''This text has already been analyzed. The results are shown above.''
   \<and> events (handler Deduplicator ''agent''
        (tracker (handler Deduplicator ''agent'' fresh_Deduplicator good_day)) good_day)
     = [Log ''text-analyzer was called with duplicate parameters, skipping.'']"
proof -
  have fresh: "\<not> tracker_isDuplicate Deduplicator fresh_Deduplicator skill_name (params_of good_day)"
    by (simp only: Deduplicator_methods fresh_not_duplicate not_False_eq_True)
  have again: "tracker_isDuplicate Deduplicator
      (tracker_trackRun Deduplicator fresh_Deduplicator skill_name (params_of good_day))
      skill_name (params_of good_day)"
    by (simp only: Deduplicator_methods isDuplicate_trackRun)
  have s1: "''agent'' @ '': Analyzing text for '' @ ''sentiment'' @ ''.''
      = ''agent: Analyzing text for sentiment.''"
    by simp
  have s2: "skill_name @ '' was called with duplicate parameters, skipping.''
      = ''text-analyzer was called with duplicate parameters, skipping.''"
    by (simp add: skill_name_def)
  show ?thesis
    using repeated_call_returns_notice [OF fresh analyze_good_day again, of "''agent''"]
    unfolding s1 s2 by blast
qed

text \<open>
  The claim C1 as it is written fails on the handler: with the Deduplicator of the spec
  as its tracker, the second of two calls with the same arguments does not return the
  text of the first.
\<close>

theorem repeated_call_text_differs:
  "returned (handler Deduplicator ''agent'' fresh_Deduplicator good_day)
     = ''**Sentiment:** Positive (Positive: 1, Negative: 0)''
   \<and> returned (handler Deduplicator ''agent''
        (tracker (handler Deduplicator ''agent'' fresh_Deduplicator good_day)) good_day)
     = ''This text has already been analyzed. The results are shown above.''
   \<and> returned (handler Deduplicator ''agent''
        (tracker (handler Deduplicator ''agent'' fresh_Deduplicator good_day)) good_day)
     \<noteq> returned (handler Deduplicator ''agent'' fresh_Deduplicator good_day)"
proof -
  have first: "handler Deduplicator ''agent'' fresh_Deduplicator good_day
      = \<lparr>returned = ''**Sentiment:** Positive (Positive: 1, Negative: 0)'',
         tracker = trackRun fresh_Deduplicator skill_name (params_of good_day),
         events = [Run Sentiment, Introspect ''agent: Analyzing text for sentiment.'']\<rparr>"
    by (simp add: handler_def try_block_def Deduplicator_methods fresh_not_duplicate analyze_good_day
        del: analyze.simps)
  have second: "returned (handler Deduplicator ''agent''
        (trackRun fresh_Deduplicator skill_name (params_of good_day)) good_day)
      = ''This text has already been analyzed. The results are shown above.''"
    by (simp add: handler_def try_block_def Deduplicator_methods isDuplicate_trackRun)
  show ?thesis unfolding first using second by simp
qed

text \<open>
  C2. A failed analysis is not recorded. For every tracker and every argument map, a
  \<open>try\<close> block that ends by an error leaves the tracker as it was. When a call is not a
  duplicate and its analysis function throws, the handler returns with that tracker, so the key is still not a duplicate and a second call with the
  same arguments starts the analysis function again. \<open>trackRun\<close> is reached on the
  success path only: whenever the tracker after a call is not the tracker before it,
  the call was no duplicate, its analysis completed, and the tracker is the one that
  \<open>trackRun\<close> returned.
\<close>

theorem failed_analysis_is_not_tracked:
  "(\<forall>trk' effects e. try_block T caller trk args = (trk', effects, Inl e) \<longrightarrow> trk' = trk)
   \<and> (\<not> tracker_isDuplicate T trk skill_name (params_of args)
      \<and> selected (analysis_type_of args) = Some (a, n)
      \<and> analyze a (text_of args) = Inl e
    \<longrightarrow> tracker (handler T caller trk args) = trk
      \<and> \<not> tracker_isDuplicate T (tracker (handler T caller trk args)) skill_name (params_of args)
      \<and> events (handler T caller (tracker (handler T caller trk args)) args)
          = [Run a, Log (''text-analyzer raised an error: '' @ message e)])
   \<and> (tracker (handler T caller trk args) = trk
      \<or> (\<exists>a' n' r. \<not> tracker_isDuplicate T trk skill_name (params_of args)
            \<and> selected (analysis_type_of args) = Some (a', n')
            \<and> analyze a' (text_of args) = Inr r
            \<and> returned (handler T caller trk args) = r
            \<and> tracker (handler T caller trk args)
                = tracker_trackRun T trk skill_name (params_of args)))"
proof (intro conjI)
  show "\<forall>trk' effects e. try_block T caller trk args = (trk', effects, Inl e) \<longrightarrow> trk' = trk"
    by (auto simp add: try_block_def simp del: analyze.simps
        split: if_splits option.splits sum.splits)
next
  show "\<not> tracker_isDuplicate T trk skill_name (params_of args)
      \<and> selected (analysis_type_of args) = Some (a, n)
      \<and> analyze a (text_of args) = Inl e
    \<longrightarrow> tracker (handler T caller trk args) = trk
      \<and> \<not> tracker_isDuplicate T (tracker (handler T caller trk args)) skill_name (params_of args)
      \<and> events (handler T caller (tracker (handler T caller trk args)) args)
          = [Run a, Log (''text-analyzer raised an error: '' @ message e)]"
    by (simp add: handler_def try_block_def del: analyze.simps)
next
  show "tracker (handler T caller trk args) = trk
      \<or> (\<exists>a' n' r. \<not> tracker_isDuplicate T trk skill_name (params_of args)
            \<and> selected (analysis_type_of args) = Some (a', n')
            \<and> analyze a' (text_of args) = Inr r
            \<and> returned (handler T caller trk args) = r
            \<and> tracker (handler T caller trk args)
                = tracker_trackRun T trk skill_name (params_of args))"
    by (auto simp add: handler_def try_block_def simp del: analyze.simps split: option.splits sum.splits)
qed

theorem failed_analysis_is_not_tracked_witness:
  "tracker (handler Deduplicator ''agent'' fresh_Deduplicator null_text) = fresh_Deduplicator
   \<and> events (handler Deduplicator ''agent''
        (tracker (handler Deduplicator ''agent'' fresh_Deduplicator null_text)) null_text)
     = [Run Keywords,
        Log (''text-analyzer raised an error: '' @ message (TypeError
          (''Cannot read properties of null (reading '' @ [CHR 0x27] @ ''toLowerCase''
           @ [CHR 0x27] @ '')'')))]"
proof -
  have fresh: "\<not> tracker_isDuplicate Deduplicator fresh_Deduplicator skill_name (params_of null_text)"
    by (simp only: Deduplicator_methods fresh_not_duplicate not_False_eq_True)
  note failed = failed_analysis_is_not_tracked [where T = Deduplicator
      and trk = fresh_Deduplicator and args = null_text and caller = "''agent''",
      THEN conjunct2, THEN conjunct1, rule_format,
      OF conjI [OF fresh conjI [OF analyze_null_text]]]
  show ?thesis using failed by blast
qed

text \<open>
  C3. The duplicate check comes before the analysis. For every tracker and every
  argument map that the tracker reports as a duplicate, the call starts none of the
  analysis functions: it logs the skip, returns the notice and leaves the tracker as it
  is.
\<close>

theorem duplicate_call_runs_no_analysis:
  assumes "tracker_isDuplicate T trk skill_name (params_of args)"
  shows "(\<forall>a. Run a \<notin> set (events (handler T caller trk args)))
    \<and> events (handler T caller trk args)
        = [Log (skill_name @ '' was called with duplicate parameters, skipping.'')]
    \<and> returned (handler T caller trk args)
        = ''This text has already been analyzed. The results are shown above.''
    \<and> tracker (handler T caller trk args) = trk"
  using assms by (simp add: handler_def try_block_def)

theorem duplicate_call_runs_no_analysis_witness:
  "Run Sentiment \<notin> set (events (handler Deduplicator ''agent''
       (trackRun fresh_Deduplicator skill_name (params_of good_day)) good_day))
   \<and> returned (handler Deduplicator ''agent''
       (trackRun fresh_Deduplicator skill_name (params_of good_day)) good_day)
     = ''This text has already been analyzed. The results are shown above.''"
proof -
  have dup: "tracker_isDuplicate Deduplicator
      (trackRun fresh_Deduplicator skill_name (params_of good_day)) skill_name (params_of good_day)"
    by (simp only: Deduplicator_methods isDuplicate_trackRun)
  show ?thesis
    using duplicate_call_runs_no_analysis [OF dup, of "''agent''"] by simp
qed

text \<open>
  C6. An error of an analysis function does not leave the handler. For every tracker
  and every input object \<open>{text, analysis_type}\<close> the handler returns a string. When
  the \<open>try\<close> block ends by an error, the string is
  \<open>An error occurred while analyzing the text: \<close> followed by the message of the
  error. In all, the string is the notice for a duplicate, the message for an analysis
  type that is none of the four, the result of the analysis, or that text for the error
  that the analysis function threw; and it is that text whenever an analysis is started
  on a \<open>text\<close> that is not a string.
\<close>

theorem handler_returns_string:
  "(\<forall>trk' effects e. try_block T caller trk args = (trk', effects, Inl e) \<longrightarrow>
      returned (handler T caller trk args)
        = ''An error occurred while analyzing the text: '' @ message e)
   \<and> returned (handler T caller trk args) =
     (if tracker_isDuplicate T trk skill_name (params_of args)
      then ''This text has already been analyzed. The results are shown above.''
      else case selected (analysis_type_of args) of
        None \<Rightarrow> ''Invalid analysis type specified.''
      | Some (a, n) \<Rightarrow>
         (case analyze a (text_of args) of
            Inl e \<Rightarrow> ''An error occurred while analyzing the text: '' @ message e
          | Inr r \<Rightarrow> r))
   \<and> (\<not> tracker_isDuplicate T trk skill_name (params_of args)
        \<and> selected (analysis_type_of args) \<noteq> None
        \<and> (\<forall>s. text_of args \<noteq> JStr s)
      \<longrightarrow> (\<exists>m. returned (handler T caller trk args)
             = ''An error occurred while analyzing the text: '' @ m))"
proof (intro conjI)
  show "\<forall>trk' effects e. try_block T caller trk args = (trk', effects, Inl e) \<longrightarrow>
      returned (handler T caller trk args)
        = ''An error occurred while analyzing the text: '' @ message e"
    by (simp add: handler_def)
next
  show "returned (handler T caller trk args) =
     (if tracker_isDuplicate T trk skill_name (params_of args)
      then ''This text has already been analyzed. The results are shown above.''
      else case selected (analysis_type_of args) of
        None \<Rightarrow> ''Invalid analysis type specified.''
      | Some (a, n) \<Rightarrow>
         (case analyze a (text_of args) of
            Inl e \<Rightarrow> ''An error occurred while analyzing the text: '' @ message e
          | Inr r \<Rightarrow> r))"
    by (simp add: handler_def try_block_def del: analyze.simps
        split: option.splits sum.splits prod.splits)
next
  show "\<not> tracker_isDuplicate T trk skill_name (params_of args)
        \<and> selected (analysis_type_of args) \<noteq> None
        \<and> (\<forall>s. text_of args \<noteq> JStr s)
      \<longrightarrow> (\<exists>m. returned (handler T caller trk args)
             = ''An error occurred while analyzing the text: '' @ m)"
  proof
    assume h: "\<not> tracker_isDuplicate T trk skill_name (params_of args)
        \<and> selected (analysis_type_of args) \<noteq> None
        \<and> (\<forall>s. text_of args \<noteq> JStr s)"
    then obtain a n where s: "selected (analysis_type_of args) = Some (a, n)" by auto
    obtain m where "analyze a (text_of args) = Inl (TypeError m)"
      using analysis_of_no_string_throws h by blast
    then have "returned (handler T caller trk args)
        = ''An error occurred while analyzing the text: '' @ m"
      using h s by (simp add: handler_def try_block_def del: analyze.simps)
    then show "\<exists>m. returned (handler T caller trk args)
        = ''An error occurred while analyzing the text: '' @ m" ..
  qed
qed

theorem handler_returns_string_witness:
  "returned (handler Deduplicator ''agent'' fresh_Deduplicator null_text)
     = ''An error occurred while analyzing the text: Cannot read properties of null (reading ''
       @ [CHR 0x27] @ ''toLowerCase'' @ [CHR 0x27] @ '')''"
  using handler_returns_string [of Deduplicator "''agent''" fresh_Deduplicator null_text,
      THEN conjunct2, THEN conjunct1]
  by (simp add: Deduplicator_methods fresh_not_duplicate analyze_null_text del: analyze.simps)

section \<open>The composite key of the Deduplicator\<close>

lemma digit_char_is_digit: "d < 10 \<Longrightarrow> is_digit (digit_char d)"
proof -
  assume "d < 10"
  then have "d \<in> {0, 1, 2, 3, 4, 5, 6, 7, 8, 9}" by auto
  then show ?thesis by (auto simp: digit_char_def is_digit_def)
qed

lemma digit_char_value: "d < 10 \<Longrightarrow> code_unit (digit_char d) - 48 = d"
proof -
  assume "d < 10"
  then have "d \<in> {0, 1, 2, 3, 4, 5, 6, 7, 8, 9}" by auto
  then show ?thesis by (auto simp: digit_char_def code_unit_def)
qed

lemma show_nat_digits: "list_all is_digit (show_nat n)"
proof (induction n rule: show_nat.induct)
  case (1 n)
  show ?case
  proof (cases "n < 10")
    case True
    then show ?thesis by (subst show_nat.simps) (simp add: digit_char_is_digit)
  next
    case False
    with 1 show ?thesis by (subst show_nat.simps) (simp add: digit_char_is_digit)
  qed
qed

lemma show_nat_nonempty: "show_nat n \<noteq> []"
  by (subst show_nat.simps) simp

lemma read_nat_snoc: "read_nat (s @ [c]) = 10 * read_nat s + (code_unit c - 48)"
  by (simp add: read_nat_def)

lemma read_show_nat: "read_nat (show_nat n) = n"
proof (induction n rule: show_nat.induct)
  case (1 n)
  show ?case
  proof (cases "n < 10")
    case True
    then show ?thesis by (subst show_nat.simps) (simp add: read_nat_def digit_char_value)
  next
    case False
    with 1 show ?thesis
      by (subst show_nat.simps) (simp add: read_nat_snoc digit_char_value)
  qed
qed

lemma show_nat_inj: "show_nat m = show_nat n \<Longrightarrow> m = n"
  by (metis read_show_nat)

lemma takeWhile_digits:
  "list_all is_digit ds \<Longrightarrow> no_digit_ahead r \<Longrightarrow> takeWhile is_digit (ds @ r) = ds"
  by (induction ds) (auto simp: no_digit_ahead_def split: list.splits)

lemma dropWhile_digits:
  "list_all is_digit ds \<Longrightarrow> no_digit_ahead r \<Longrightarrow> dropWhile is_digit (ds @ r) = r"
  by (induction ds) (auto simp: no_digit_ahead_def split: list.splits)

lemma stops_no_digit_ahead: "stops r \<Longrightarrow> no_digit_ahead r"
  by (auto simp: stops_def no_digit_ahead_def split: list.splits)

lemma show_nat_unique:
  assumes "show_nat m @ r = show_nat n @ r'" "no_digit_ahead r" "no_digit_ahead r'"
  shows "m = n \<and> r = r'"
proof -
  have "takeWhile is_digit (show_nat m @ r) = show_nat m" "dropWhile is_digit (show_nat m @ r) = r"
    using assms(2) by (simp_all add: takeWhile_digits dropWhile_digits show_nat_digits)
  moreover have "takeWhile is_digit (show_nat n @ r') = show_nat n" "dropWhile is_digit (show_nat n @ r') = r'"
    using assms(3) by (simp_all add: takeWhile_digits dropWhile_digits show_nat_digits)
  ultimately show ?thesis using assms(1) show_nat_inj by metis
qed

lemma show_nat_hd_digit: "is_digit (hd (show_nat n))"
  using show_nat_digits [of n] show_nat_nonempty [of n] by (cases "show_nat n") auto

lemma show_int_unique:
  assumes "show_int i @ r = show_int j @ r'" "no_digit_ahead r" "no_digit_ahead r'"
  shows "i = j \<and> r = r'"
proof -
  have minus: "\<not> is_digit CHR ''-''" by (simp add: is_digit_def)
  have hd_app: "\<And>n r. hd (show_nat n @ r) = hd (show_nat n)"
    using show_nat_nonempty by simp
  show ?thesis
  proof (cases "i < 0")
    case True
    show ?thesis
    proof (cases "j < 0")
      case jneg: True
      with True assms show ?thesis
        using show_nat_unique [of "nat (- i)" r "nat (- j)" r'] by (auto simp: show_int_def)
    next
      case False
      with True assms(1) have "CHR ''-'' = hd (show_nat (nat j) @ r')"
        by (simp add: show_int_def) (metis list.sel(1))
      then show ?thesis using minus show_nat_hd_digit [of "nat j"] hd_app by metis
    qed
  next
    case False
    show ?thesis
    proof (cases "j < 0")
      case True
      with False assms(1) have "hd (show_nat (nat i) @ r) = CHR ''-''"
        by (simp add: show_int_def)
      then show ?thesis using minus show_nat_hd_digit [of "nat i"] hd_app by metis
    next
      case jpos: False
      with False assms show ?thesis
        using show_nat_unique [of "nat i" r "nat j" r'] by (auto simp: show_int_def)
    qed
  qed
qed

lemma quotient_of_denominator: "quotient_of x = (p, q) \<Longrightarrow> 0 < q"
  using quotient_of_denom_pos by blast

lemma show_number_unique:
  assumes "show_number x @ r = show_number y @ r'" "stops r" "stops r'"
  shows "x = y \<and> r = r'"
proof -
  obtain p q where x: "quotient_of x = (p, q)" by (cases "quotient_of x")
  obtain p' q' where y: "quotient_of y = (p', q')" by (cases "quotient_of y")
  have q: "0 < q" "0 < q'" using x y quotient_of_denominator by blast+
  have slash: "\<And>t. no_digit_ahead (CHR ''/'' # t)" by (simp add: no_digit_ahead_def is_digit_def)
  have r: "no_digit_ahead r" "no_digit_ahead r'" using assms(2,3) stops_no_digit_ahead by blast+
  have not_slash: "\<And>t. stops t \<Longrightarrow> t \<noteq> CHR ''/'' # u" for u by (auto simp: stops_def)
  consider (ii) "q = 1" "q' = 1" | (if') "q = 1" "q' \<noteq> 1" | (fi) "q \<noteq> 1" "q' = 1"
    | (ff) "q \<noteq> 1" "q' \<noteq> 1" by blast
  then show ?thesis
  proof cases
    case ii
    then have "show_int p @ r = show_int p' @ r'" using assms(1) x y by (simp add: show_number_def)
    then have "p = p' \<and> r = r'" using r by (rule show_int_unique)
    then show ?thesis using ii x y by (metis quotient_of_inject)
  next
    case if'
    then have "show_int p @ r = show_int p' @ (CHR ''/'' # show_nat (nat q') @ r')"
      using assms(1) x y by (simp add: show_number_def)
    then have "r = CHR ''/'' # show_nat (nat q') @ r'"
      using show_int_unique [OF _ r(1) slash] by blast
    then show ?thesis using not_slash [OF assms(2)] by blast
  next
    case fi
    then have "show_int p @ (CHR ''/'' # show_nat (nat q) @ r) = show_int p' @ r'"
      using assms(1) x y by (simp add: show_number_def)
    then have "CHR ''/'' # show_nat (nat q) @ r = r'"
      using show_int_unique [OF _ slash r(2)] by blast
    then show ?thesis using not_slash [OF assms(3)] by metis
  next
    case ff
    then have e: "show_int p @ (CHR ''/'' # show_nat (nat q) @ r)
        = show_int p' @ (CHR ''/'' # show_nat (nat q') @ r')"
      using assms(1) x y by (simp add: show_number_def)
    then have pp: "p = p'" and "CHR ''/'' # show_nat (nat q) @ r = CHR ''/'' # show_nat (nat q') @ r'"
      using show_int_unique [OF e slash slash] by blast+
    then have "show_nat (nat q) @ r = show_nat (nat q') @ r'" by simp
    then have "nat q = nat q' \<and> r = r'" using r by (rule show_nat_unique)
    then have "q = q'" and "r = r'" using q by (simp_all add: nat_eq_iff)
    then show ?thesis using pp x y by (metis quotient_of_inject)
  qed
qed

lemma escape_unit_unique:
  "escape_unit c @ x = escape_unit c' @ x' \<Longrightarrow> c = c' \<and> x = x'"
  by (auto simp: escape_unit_def split: if_splits)

lemma escape_unit_not_quote:
  "escape_unit c @ x \<noteq> CHR 0x22 # y" "CHR 0x22 # y \<noteq> escape_unit c @ x"
  by (auto simp: escape_unit_def)

lemma escaped_unique:
  "concat (map escape_unit s) @ CHR 0x22 # r = concat (map escape_unit s') @ CHR 0x22 # r'
   \<Longrightarrow> s = s' \<and> r = r'"
proof (induction s arbitrary: s')
  case Nil
  then show ?case by (cases s') (auto simp: escape_unit_not_quote)
next
  case (Cons c cs)
  show ?case
  proof (cases s')
    case Nil
    with Cons.prems show ?thesis by (auto simp: escape_unit_not_quote)
  next
    case (Cons c' cs')
    with Cons.prems have "c = c' \<and> concat (map escape_unit cs) @ CHR 0x22 # r
        = concat (map escape_unit cs') @ CHR 0x22 # r'"
      using escape_unit_unique [of c _ c'] by simp
    with Cons.IH Cons show ?thesis by blast
  qed
qed

lemma quote_unique: "quote s @ r = quote s' @ r' \<Longrightarrow> s = s' \<and> r = r'"
  using escaped_unique [of s r s' r'] by (simp add: quote_def)


lemma join_Cons: "join sep (x # xs) = x @ (if xs = [] then [] else sep @ join sep xs)"
  by (cases xs) simp_all

lemma joined_unique:
  assumes dec: "\<forall>x \<in> set xs. decodes f x"
    and first: "\<And>x. f x \<noteq> [] \<and> hd (f x) \<noteq> close"
    and close: "\<not> is_digit close" "close \<noteq> CHR '',''" "close \<noteq> CHR ''/''"
    and eq: "join '','' (map f xs) @ close # r = join '','' (map f xs') @ close # r'"
  shows "xs = xs' \<and> r = r'"
  using dec eq
proof (induction xs arbitrary: xs')
  case Nil
  show ?case
  proof (cases xs')
    case Nil
    with Nil.prems show ?thesis by simp
  next
    case (Cons y ys)
    with Nil.prems have "close # r = f y @ (if ys = [] then [] else '','' @ join '','' (map f ys)) @ close # r'"
      by (simp add: join_Cons)
    then have "close = hd (f y)" using first [of y] by (metis hd_append2 list.sel(1))
    then show ?thesis using first [of y] by simp
  qed
next
  case (Cons x t)
  show ?case
  proof (cases xs')
    case Nil
    with Cons.prems have "f x @ (if t = [] then [] else '','' @ join '','' (map f t)) @ close # r = close # r'"
      by (simp add: join_Cons)
    then have "hd (f x) = close" using first [of x] by (metis hd_append2 list.sel(1))
    then show ?thesis using first [of x] by simp
  next
    case ys: (Cons y t')
    define R where "R = (if t = [] then [] else '','' @ join '','' (map f t)) @ close # r"
    define R' where "R' = (if t' = [] then [] else '','' @ join '','' (map f t')) @ close # r'"
    have comma: "\<not> is_digit CHR '',''" by (simp add: is_digit_def)
    have "stops R" "stops R'" using close comma by (auto simp: R_def R'_def stops_def)
    moreover have "f x @ R = f y @ R'"
      using Cons.prems(2) ys by (simp add: join_Cons R_def R'_def)
    moreover have "decodes f x" using Cons.prems(1) by simp
    ultimately have xy: "x = y" and RR: "R = R'" unfolding decodes_def by blast+
    show ?thesis
    proof (cases "t = []")
      case True
      with RR close show ?thesis using xy ys by (auto simp: R_def R'_def split: if_splits)
    next
      case False
      with RR close have t': "t' \<noteq> []" by (auto simp: R_def R'_def split: if_splits)
      with False RR have "join '','' (map f t) @ close # r = join '','' (map f t') @ close # r'"
        by (simp add: R_def R'_def)
      with Cons.IH [of t'] Cons.prems(1) have "t = t' \<and> r = r'" by simp
      with xy ys show ?thesis by simp
    qed
  qed
qed

lemma is_digit_class: "is_digit c \<Longrightarrow> char_class c = 2"
  by (auto simp: char_class_def is_digit_def)

lemma show_int_first: "show_int i \<noteq> [] \<and> char_class (hd (show_int i)) = 2"
  using show_nat_nonempty show_nat_hd_digit [of "nat i"]
  by (auto simp: show_int_def is_digit_class) (simp add: char_class_def)

lemma serialize_first: "serialize v \<noteq> [] \<and> char_class (hd (serialize v)) = json_class v"
proof (cases v)
  case (JNum x)
  obtain p q where "quotient_of x = (p, q)" by (cases "quotient_of x")
  then show ?thesis using JNum show_int_first [of p] by (simp add: show_number_def)
qed (auto simp: char_class_def quote_def is_digit_def)

lemma serialize_class:
  assumes "serialize v @ r = serialize v' @ r'"
  shows "json_class v = json_class v'"
proof -
  have "hd (serialize v @ r) = hd (serialize v)" "hd (serialize v' @ r') = hd (serialize v')"
    using serialize_first by simp_all
  then show ?thesis using assms serialize_first by metis
qed

lemma serialize_decodes: "decodes serialize v"
proof (induction v)
  case JNull
  show ?case unfolding decodes_def
  proof (intro allI impI)
    fix v' r r' assume h: "serialize JNull @ r = serialize v' @ r' \<and> stops r \<and> stops r'"
    then have "json_class v' = 0" using serialize_class [of JNull r v' r'] by simp
    then obtain "v' = JNull" by (cases v') auto
    with h show "JNull = v' \<and> r = r'" by simp
  qed
next
  case (JBool b)
  show ?case unfolding decodes_def
  proof (intro allI impI)
    fix v' r r' assume h: "serialize (JBool b) @ r = serialize v' @ r' \<and> stops r \<and> stops r'"
    then have "json_class v' = 1" using serialize_class [of "JBool b" r v' r'] by simp
    then obtain b' where "v' = JBool b'" by (cases v') auto
    with h show "JBool b = v' \<and> r = r'" by (auto split: if_splits)
  qed
next
  case (JNum x)
  show ?case unfolding decodes_def
  proof (intro allI impI)
    fix v' r r' assume h: "serialize (JNum x) @ r = serialize v' @ r' \<and> stops r \<and> stops r'"
    then have "json_class v' = 2" using serialize_class [of "JNum x" r v' r'] by simp
    then obtain y where "v' = JNum y" by (cases v') auto
    with h show "JNum x = v' \<and> r = r'" using show_number_unique [of x r y r'] by simp
  qed
next
  case (JStr s)
  show ?case unfolding decodes_def
  proof (intro allI impI)
    fix v' r r' assume h: "serialize (JStr s) @ r = serialize v' @ r' \<and> stops r \<and> stops r'"
    then have "json_class v' = 3" using serialize_class [of "JStr s" r v' r'] by simp
    then obtain s' where "v' = JStr s'" by (cases v') auto
    with h show "JStr s = v' \<and> r = r'" using quote_unique [of s r s' r'] by simp
  qed
next
  case (JArr vs)
  show ?case unfolding decodes_def
  proof (intro allI impI)
    fix v' r r' assume h: "serialize (JArr vs) @ r = serialize v' @ r' \<and> stops r \<and> stops r'"
    then have "json_class v' = 4" using serialize_class [of "JArr vs" r v' r'] by simp
    then obtain vs' where v': "v' = JArr vs'" by (cases v') auto
    have first: "\<And>x. serialize x \<noteq> [] \<and> hd (serialize x) \<noteq> CHR '']''"
    proof -
      fix x
      have "char_class (hd (serialize x)) < 6" using serialize_first [of x] by (cases x) auto
      then show "serialize x \<noteq> [] \<and> hd (serialize x) \<noteq> CHR '']''"
        using serialize_first [of x] by (auto simp: char_class_def is_digit_def)
    qed
    have "join '','' (map serialize vs) @ CHR '']'' # r = join '','' (map serialize vs') @ CHR '']'' # r'"
      using h v' by simp
    with JArr first have "vs = vs' \<and> r = r'"
      by (intro joined_unique [where f = serialize and close = "CHR '']''"]) (auto simp: is_digit_def)
    with v' show "JArr vs = v' \<and> r = r'" by simp
  qed
next
  case (JObj kvs)
  let ?f = "\<lambda>(k, v). quote k @ '':'' @ serialize v"
  show ?case unfolding decodes_def
  proof (intro allI impI)
    fix v' r r' assume h: "serialize (JObj kvs) @ r = serialize v' @ r' \<and> stops r \<and> stops r'"
    then have "json_class v' = 5" using serialize_class [of "JObj kvs" r v' r'] by simp
    then obtain kvs' where v': "v' = JObj kvs'" by (cases v') auto
    have first: "\<And>x. ?f x \<noteq> [] \<and> hd (?f x) \<noteq> CHR ''}''"
      by (auto simp: quote_def)
    have dec: "\<forall>x \<in> set kvs. decodes ?f x"
    proof
      fix x assume x: "x \<in> set kvs"
      obtain k v where kv: "x = (k, v)" by (cases x)
      with x JObj have dv: "decodes serialize v" by (auto simp: snds.simps)
      show "decodes ?f x" unfolding decodes_def
      proof (intro allI impI)
        fix x' q q' assume e: "?f x @ q = ?f x' @ q' \<and> stops q \<and> stops q'"
        obtain k' w where x': "x' = (k', w)" by (cases x')
        from e kv x' have "quote k @ ('':'' @ serialize v @ q) = quote k' @ ('':'' @ serialize w @ q')"
          by simp
        then have "k = k'" and "'':'' @ serialize v @ q = '':'' @ serialize w @ q'"
          using quote_unique by blast+
        then have "serialize v @ q = serialize w @ q'" by simp
        with dv e have "v = w \<and> q = q'" unfolding decodes_def by blast
        with \<open>k = k'\<close> kv x' show "x = x' \<and> q = q'" by simp
      qed
    qed
    have "join '','' (map ?f kvs) @ CHR ''}'' # r = join '','' (map ?f kvs') @ CHR ''}'' # r'"
      using h v' by simp
    with dec first have "kvs = kvs' \<and> r = r'"
      by (intro joined_unique [where f = ?f and close = "CHR ''}''"]) (auto simp: is_digit_def)
    with v' show "JObj kvs = v' \<and> r = r'" by simp
  qed
qed

lemma serialize_inj: "serialize v = serialize v' \<Longrightarrow> v = v'"
  using serialize_decodes [of v] unfolding decodes_def
  by (metis append_Nil2 list.case(1) stops_def)


lemma composite_key_eq_iff:
  "composite_key S a = composite_key S b \<longleftrightarrow> canonical (JObj a) = canonical (JObj b)"
proof
  assume "composite_key S a = composite_key S b"
  then have "serialize (canonical (JObj a)) = serialize (canonical (JObj b))"
    by (simp only: composite_key_def same_append_eq)
  then show "canonical (JObj a) = canonical (JObj b)" by (rule serialize_inj)
next
  assume "canonical (JObj a) = canonical (JObj b)"
  then show "composite_key S a = composite_key S b" by (simp only: composite_key_def)
qed

lemma keys_of_mapped_members: "map fst (map (\<lambda>(k, v). (k, f v)) xs) = map fst xs"
  by (induction xs) auto

lemma canonical_object_eq_iff:
  "canonical (JObj a) = canonical (JObj b)
   \<longleftrightarrow> sort_key fst (map (\<lambda>(k, v). (k, canonical v)) a)
       = sort_key fst (map (\<lambda>(k, v). (k, canonical v)) b)"
  by (simp only: canonical.simps json.inject)

lemma canonical_members_permuted:
  assumes "distinct (map fst a)" and "mset b = mset a"
  shows "canonical (JObj b) = canonical (JObj a)"
proof -
  let ?g = "\<lambda>(k, v). (k, canonical v)"
  have ms: "mset (map ?g b) = mset (map ?g a)" using assms(2) by (simp only: mset_map)
  then have m: "mset (map ?g b) = mset (sort_key fst (map ?g a))" by (simp only: mset_sort)
  have "distinct (map fst (map ?g a))" using assms(1) by (simp only: keys_of_mapped_members)
  then have "inj_on fst (set (map ?g a))" by (simp only: distinct_map)
  moreover have "set (map ?g b) = set (map ?g a)"
    using ms by (metis set_mset_mset)
  ultimately have "inj_on fst (set (map ?g b))" by simp
  then have "sort_key fst (map ?g b) = sort_key fst (map ?g a)"
    using m by (intro sort_key_inj_key_eq) simp_all
  then show ?thesis by (simp only: canonical_object_eq_iff)
qed

lemma canonical_members_lookup:
  "map_of (map (\<lambda>(k, v). (k, canonical v)) a) k = map_option canonical (map_of a k)"
  by (induction a) auto

lemma canonical_values_differ:
  assumes "distinct (map fst a)" "distinct (map fst b)"
    and "map_option canonical (map_of a k) \<noteq> map_option canonical (map_of b k)"
  shows "canonical (JObj a) \<noteq> canonical (JObj b)"
proof
  let ?g = "\<lambda>(k, v). (k, canonical v)"
  assume "canonical (JObj a) = canonical (JObj b)"
  then have "sort_key fst (map ?g a) = sort_key fst (map ?g b)"
    by (simp only: canonical_object_eq_iff)
  then have "set (sort_key fst (map ?g a)) = set (sort_key fst (map ?g b))" by (rule arg_cong)
  then have s: "set (map ?g a) = set (map ?g b)" by (simp only: set_sort)
  have "distinct (map fst (map ?g a))" "distinct (map fst (map ?g b))"
    using assms(1,2) by (simp_all only: keys_of_mapped_members)
  then have "map_of (map ?g a) = map_of (map ?g b)" using s by (simp only: map_of_inject_set)
  then have "map_of (map ?g a) k = map_of (map ?g b) k" by (rule arg_cong)
  then show False using assms(3) by (simp only: canonical_members_lookup)
qed

subsection \<open>Keys and values\<close>

lemma canonical_class: "json_class (canonical v) = json_class v"
  by (cases v) simp_all

lemma map_eq_iff_list_all2:
  assumes "\<And>x y. x \<in> set xs \<Longrightarrow> y \<in> set ys \<Longrightarrow> (f x = f y \<longleftrightarrow> R x y)"
  shows "map f xs = map f ys \<longleftrightarrow> list_all2 R xs ys"
  using assms
proof (induction xs arbitrary: ys)
  case Nil
  show ?case by auto
next
  case (Cons x xs)
  show ?case
  proof (cases ys)
    case Nil
    then show ?thesis by simp
  next
    case (Cons y ys')
    have "map f xs = map f ys' \<longleftrightarrow> list_all2 R xs ys'"
      using Cons.prems Cons by (intro Cons.IH) simp_all
    moreover have "f x = f y \<longleftrightarrow> R x y" using Cons.prems Cons by simp
    ultimately show ?thesis using Cons by simp
  qed
qed

lemma keys_card: "distinct (map fst a) \<Longrightarrow> card (fst ` set a) = length a"
  using distinct_card [of "map fst a"] by simp

lemma lookup_agree:
  assumes da: "distinct (map fst a)" and db: "distinct (map fst b)"
    and fR: "\<And>k v w. (k, v) \<in> set a \<Longrightarrow> (k, w) \<in> set b \<Longrightarrow> (f v = f w \<longleftrightarrow> R v w)"
  shows "(\<forall>k. map_option f (map_of a k) = map_option f (map_of b k))
    \<longleftrightarrow> (length a = length b
         \<and> list_all (\<lambda>(k, v). case map_of b k of None \<Rightarrow> False | Some w \<Rightarrow> R v w) a)"
proof
  assume H: "\<forall>k. map_option f (map_of a k) = map_option f (map_of b k)"
  have "\<And>k. (map_of a k = None) = (map_of b k = None)"
    using H by (metis option.map_disc_iff)
  then have "dom (map_of a) = dom (map_of b)" by (auto simp: dom_def)
  then have "fst ` set a = fst ` set b" by (simp only: dom_map_of_conv_image_fst)
  then have len: "length a = length b" using keys_card [OF da] keys_card [OF db] by simp
  have "\<And>k v. (k, v) \<in> set a \<Longrightarrow> (case map_of b k of None \<Rightarrow> False | Some w \<Rightarrow> R v w)"
  proof -
    fix k v assume kv: "(k, v) \<in> set a"
    then have "map_of a k = Some v" using da by simp
    then have "map_option f (map_of b k) = Some (f v)" using H by (metis option.simps(9))
    then obtain w where w: "map_of b k = Some w" "f w = f v" by auto
    then have "(k, w) \<in> set b" by (simp add: map_of_SomeD)
    then have "R v w" using fR [OF kv, of w] w(2) by auto
    then show "case map_of b k of None \<Rightarrow> False | Some w \<Rightarrow> R v w" using w(1) by simp
  qed
  then show "length a = length b
      \<and> list_all (\<lambda>(k, v). case map_of b k of None \<Rightarrow> False | Some w \<Rightarrow> R v w) a"
    using len by (auto simp: list_all_iff)
next
  assume H: "length a = length b
      \<and> list_all (\<lambda>(k, v). case map_of b k of None \<Rightarrow> False | Some w \<Rightarrow> R v w) a"
  then have each: "\<And>k v. (k, v) \<in> set a \<Longrightarrow> \<exists>w. map_of b k = Some w \<and> R v w"
    by (auto simp: list_all_iff split: option.splits)
  have "fst ` set a \<subseteq> fst ` set b"
  proof
    fix k assume "k \<in> fst ` set a"
    then obtain v where "(k, v) \<in> set a" by auto
    then obtain w where "map_of b k = Some w" using each by blast
    then show "k \<in> fst ` set b" by (metis map_of_SomeD fst_conv image_eqI)
  qed
  moreover have "card (fst ` set a) = card (fst ` set b)"
    using H keys_card [OF da] keys_card [OF db] by simp
  ultimately have keys: "fst ` set a = fst ` set b"
    by (intro card_subset_eq) simp_all
  show "\<forall>k. map_option f (map_of a k) = map_option f (map_of b k)"
  proof
    fix k
    show "map_option f (map_of a k) = map_option f (map_of b k)"
    proof (cases "map_of a k")
      case None
      then have "k \<notin> fst ` set a" by (simp add: map_of_eq_None_iff)
      then have "map_of b k = None" using keys by (simp add: map_of_eq_None_iff)
      then show ?thesis using None by simp
    next
      case (Some v)
      then have kv: "(k, v) \<in> set a" by (simp add: map_of_SomeD)
      then obtain w where w: "map_of b k = Some w" "R v w" using each by blast
      then have "(k, w) \<in> set b" by (simp add: map_of_SomeD)
      then have "f v = f w" using fR [OF kv] w(2) by simp
      then show ?thesis using Some w(1) by simp
    qed
  qed
qed

lemma canonical_object_lookup:
  assumes "distinct (map fst a)" "distinct (map fst b)"
  shows "canonical (JObj a) = canonical (JObj b)
    \<longleftrightarrow> (\<forall>k. map_option canonical (map_of a k) = map_option canonical (map_of b k))"
proof
  assume "canonical (JObj a) = canonical (JObj b)"
  then show "\<forall>k. map_option canonical (map_of a k) = map_option canonical (map_of b k)"
    using canonical_values_differ [OF assms] by blast
next
  let ?g = "\<lambda>(k, v). (k, canonical v)"
  assume H: "\<forall>k. map_option canonical (map_of a k) = map_option canonical (map_of b k)"
  have "map_of (map ?g a) k = map_of (map ?g b) k" for k
    unfolding canonical_members_lookup using H by blast
  then have "map_of (map ?g a) = map_of (map ?g b)" by (intro ext)
  moreover have d: "distinct (map fst (map ?g a))" "distinct (map fst (map ?g b))"
    using assms by (simp_all only: keys_of_mapped_members)
  ultimately have s: "set (map ?g a) = set (map ?g b)" by (simp only: map_of_inject_set)
  have "distinct (map ?g a)" "distinct (map ?g b)" using d by (metis distinct_map)+
  then have m: "mset (map ?g b) = mset (sort_key fst (map ?g a))"
    using s by (simp only: mset_sort set_eq_iff_mset_eq_distinct)
  have "inj_on fst (set (map ?g b))" using d(2) by (simp only: distinct_map)
  then have "sort_key fst (map ?g b) = sort_key fst (map ?g a)"
    using m by (intro sort_key_inj_key_eq) simp_all
  then show "canonical (JObj a) = canonical (JObj b)" by (simp only: canonical_object_eq_iff)
qed

lemma canonical_eq_iff_same_value:
  "is_value v \<Longrightarrow> is_value w \<Longrightarrow> canonical v = canonical w \<longleftrightarrow> same_value v w"
proof (induction v arbitrary: w)
  case JNull
  then show ?case by (cases w) auto
next
  case (JBool b)
  then show ?case by (cases w) auto
next
  case (JNum x)
  then show ?case by (cases w) auto
next
  case (JStr s)
  then show ?case by (cases w) auto
next
  case (JArr vs)
  show ?case
  proof (cases w)
    case (JArr ws)
    have "map canonical vs = map canonical ws \<longleftrightarrow> list_all2 same_value vs ws"
    proof (rule map_eq_iff_list_all2)
      fix x y assume "x \<in> set vs" "y \<in> set ws"
      then show "canonical x = canonical y \<longleftrightarrow> same_value x y"
        using JArr.IH [of x y] JArr.prems JArr by (simp add: list_all_iff)
    qed
    then show ?thesis using JArr by simp
  qed auto
next
  case (JObj kvs)
  show ?case
  proof (cases w)
    case w: (JObj kws)
    have d: "distinct (map fst kvs)" "distinct (map fst kws)" using JObj.prems w by simp_all
    have "(\<forall>k. map_option canonical (map_of kvs k) = map_option canonical (map_of kws k))
      \<longleftrightarrow> (length kvs = length kws
           \<and> list_all (\<lambda>(k, v). case map_of kws k of None \<Rightarrow> False | Some w \<Rightarrow> same_value v w) kvs)"
    proof (rule lookup_agree [OF d])
      fix k x y assume m: "(k, x) \<in> set kvs" "(k, y) \<in> set kws"
      then have "is_value x" "is_value y" using JObj.prems w by (auto simp: list_all_iff)
      then show "canonical x = canonical y \<longleftrightarrow> same_value x y"
        using JObj.IH [of "(k, x)" x y] m(1) by simp
    qed
    then show ?thesis using canonical_object_lookup [OF d] w by simp
  qed auto
qed

lemma canonical_object_free: "object_free v \<Longrightarrow> canonical v = v"
proof (induction v)
  case (JArr vs)
  then have "map canonical vs = vs" by (simp add: list_all_iff map_idI)
  then show ?case by simp
qed simp_all

lemma same_value_object_free: "object_free v \<Longrightarrow> same_value v w \<longleftrightarrow> v = w"
proof (induction v arbitrary: w)
  case (JArr vs)
  show ?case
  proof (cases w)
    case w: (JArr ws)
    have "map id vs = map id ws \<longleftrightarrow> list_all2 same_value vs ws"
    proof (rule map_eq_iff_list_all2)
      fix x y assume "x \<in> set vs" "y \<in> set ws"
      then show "id x = id y \<longleftrightarrow> same_value x y"
        using JArr.IH [of x y] JArr.prems by (simp add: list_all_iff)
    qed
    then show ?thesis using w by simp
  qed auto
next
  case (JObj kvs)
  then show ?case by simp
next
  case JNull
  show ?case by (cases w) simp_all
next
  case (JBool b)
  show ?case by (cases w) simp_all
next
  case (JNum x)
  show ?case by (cases w) simp_all
next
  case (JStr s)
  show ?case by (cases w) simp_all
qed

lemma canonical_eq_object_free:
  "object_free v \<Longrightarrow> canonical w = canonical v \<Longrightarrow> w = v"
proof (induction v arbitrary: w)
  case JNull
  then show ?case by (cases w) simp_all
next
  case (JBool b)
  then show ?case by (cases w) simp_all
next
  case (JNum x)
  then show ?case by (cases w) simp_all
next
  case (JStr s)
  then show ?case by (cases w) simp_all
next
  case (JArr vs)
  then obtain ws where w: "w = JArr ws" by (cases w) simp_all
  then have m: "map canonical ws = map canonical vs" using JArr.prems by simp
  have len: "length ws = length vs" using arg_cong [OF m, of length] by simp
  have "ws ! i = vs ! i" if "i < length vs" for i
  proof -
    have "map canonical ws ! i = map canonical vs ! i" using m by simp
    then have "canonical (ws ! i) = canonical (vs ! i)" using that len by simp
    moreover have "vs ! i \<in> set vs" "object_free (vs ! i)"
      using that JArr.prems(1) by (simp_all add: list_all_iff)
    ultimately show ?thesis using JArr.IH by blast
  qed
  then have "ws = vs" using len by (simp add: list_eq_iff_nth_eq)
  then show ?case using w by simp
next
  case (JObj kvs)
  then show ?case by simp
qed

lemma key_of_differing_value:
  assumes "distinct (map fst a)" "distinct (map fst b)"
    and "map_of a k = Some v" "object_free v" "map_of b k \<noteq> Some v"
  shows "composite_key S a \<noteq> composite_key S b"
proof -
  have "map_option canonical (map_of a k) \<noteq> map_option canonical (map_of b k)"
  proof (cases "map_of b k")
    case None
    then show ?thesis using assms(3) by simp
  next
    case (Some w)
    then have "w \<noteq> v" using assms(5) by simp
    then have "canonical w \<noteq> canonical v" using canonical_eq_object_free [OF assms(4)] by blast
    then show ?thesis using Some assms(3) by simp
  qed
  then have "canonical (JObj a) \<noteq> canonical (JObj b)"
    by (rule canonical_values_differ [OF assms(1,2)])
  then show ?thesis using composite_key_eq_iff by blast
qed

lemma key_eq_iff_same_value:
  assumes "is_value (JObj a)" "is_value (JObj b)"
  shows "composite_key S a = composite_key S b \<longleftrightarrow> same_value (JObj a) (JObj b)"
  using canonical_eq_iff_same_value [OF assms] by (simp only: composite_key_eq_iff)

subsection \<open>Two dispatches\<close>

lemma dispatch_of_valid:
  assumes "resolve reg (skillName req) = Some sd"
    and "validate (sd_parameterSchema sd) (arguments req) = Inr args"
  shows "dispatch reg cache req
    = (case getCachedResult cache (skillName req) args of
         Some cached \<Rightarrow> \<lparr>outcome = Success cached, deduplicator = cache, invocations = 0\<rparr>
       | None \<Rightarrow>
          (case sd_handler sd args of
             Throws m \<Rightarrow> \<lparr>outcome = Failure HandlerError m, deduplicator = cache, invocations = 1\<rparr>
           | TimesOut \<Rightarrow>
               \<lparr>outcome = Failure HandlerTimeout (skillName req), deduplicator = cache,
                invocations = 1\<rparr>
           | Returns result \<Rightarrow>
               \<lparr>outcome = Success result,
                deduplicator = recordResult cache (skillName req) args result,
                invocations = 1\<rparr>))"
  unfolding dispatch_def by (simp add: assms)

lemma dispatch_hit:
  assumes "resolve reg S = Some sd" and "validate (sd_parameterSchema sd) args = Inr args"
    and "getCachedResult cache S args = Some t"
  shows "dispatch reg cache \<lparr>skillName = S, arguments = args\<rparr>
    = \<lparr>outcome = Success t, deduplicator = cache, invocations = 0\<rparr>"
  using assms by (simp add: dispatch_of_valid [where sd = sd and args = args])

lemma dispatch_miss:
  assumes "resolve reg S = Some sd" and "validate (sd_parameterSchema sd) args = Inr args"
    and "getCachedResult cache S args = None"
  shows "invocations (dispatch reg cache \<lparr>skillName = S, arguments = args\<rparr>) = 1"
  using assms
  by (cases "sd_handler sd args") (simp_all add: dispatch_of_valid [where sd = sd and args = args])

lemma dispatch_records:
  assumes "resolve reg S = Some sd" and "validate (sd_parameterSchema sd) args = Inr args"
    and "getCachedResult cache S args = None" and "sd_handler sd args = Returns t"
  shows "deduplicator (dispatch reg cache \<lparr>skillName = S, arguments = args\<rparr>)
    = recordResult cache S args t"
  using assms by (simp add: dispatch_of_valid [where sd = sd and args = args])

lemma cached_after_record:
  "getCachedResult (recordResult cache S u t) S w
    = (if composite_key S u = composite_key S w then Some t else getCachedResult cache S w)"
  by (simp add: getCachedResult_def recordResult_def)

lemma resolve_textAnalyzer: "resolve [textAnalyzer] ''text-analyzer'' = Some textAnalyzer"
  by (simp add: resolve_def textAnalyzer_def skill_name_def)

lemma validate_sample_arguments:
  "validate (sd_parameterSchema textAnalyzer) good_day_arguments = Inr good_day_arguments"
  "validate (sd_parameterSchema textAnalyzer) good_day_reordered = Inr good_day_reordered"
  "validate (sd_parameterSchema textAnalyzer) good_night_arguments = Inr good_night_arguments"
  by (simp_all add: validate_def missing_parameter_def unknown_parameter_def type_mismatch_def
      invalid_enum_value_def out_of_range_def textAnalyzer_def textAnalyzer_schema_def spec_of_def
      good_day_arguments_def good_day_reordered_def good_night_arguments_def)

lemma handler_good_day:
  "returned (handler Deduplicator skill_name fresh_Deduplicator good_day)
     = ''**Sentiment:** Positive (Positive: 1, Negative: 0)''"
proof -
  have "\<not> tracker_isDuplicate Deduplicator fresh_Deduplicator skill_name (params_of good_day)"
    by (simp only: Deduplicator_methods fresh_not_duplicate not_False_eq_True)
  then show ?thesis by (simp add: handler_def try_block_def analyze_good_day del: analyze.simps)
qed

lemma textAnalyzer_good_day:
  "sd_handler textAnalyzer good_day_arguments
     = Returns ''**Sentiment:** Positive (Positive: 1, Negative: 0)''"
proof -
  have "\<lparr>arg_text = map_of good_day_arguments ''text'',
         arg_analysis_type = map_of good_day_arguments ''analysis_type''\<rparr> = good_day"
    by (simp add: good_day_arguments_def good_day_def)
  then show ?thesis by (simp add: textAnalyzer_def handler_good_day)
qed

text \<open>
  C4. The composite key does not depend on the order in which the members of the
  arguments are written and depends on their values.

  \<^item> Two argument maps with the same members in a different order have the same key,
    so after a result is recorded for one the other is a duplicate and gets the
    cached result.
  \<^item> For all argument maps that are JSON values (no object with two members of the
    same name), the keys are equal exactly when the maps are the same value, that is
    when they differ at most in the order of the members of their objects, at any
    depth. Different values never have the same key.
  \<^item> In particular two argument maps of which one holds under some name a value
    without objects (a number, a string, a truth value, \<open>null\<close>, an array of these)
    that the other does not hold there have different keys: recording a result for
    one changes nothing for the other.
  \<^item> In the Dispatcher: a dispatch of valid arguments that have no record invokes the
    handler; when the handler returns, a following dispatch of the same value in
    another order is a cache hit, with the same text and without invoking the
    handler, and a following dispatch of a different value that has no record
    invokes the handler.
\<close>

theorem key_ignores_order_not_values:
  "(distinct (map fst a) \<and> mset b = mset a \<longrightarrow>
      composite_key S a = composite_key S b
      \<and> isDuplicate (recordResult d S a r) S b
      \<and> getCachedResult (recordResult d S a r) S b = Some r)
   \<and> (is_value (JObj u) \<and> is_value (JObj w) \<longrightarrow>
      (composite_key S u = composite_key S w \<longleftrightarrow> same_value (JObj u) (JObj w)))
   \<and> (distinct (map fst a') \<and> distinct (map fst b')
        \<and> map_of a' k = Some v \<and> object_free v \<and> map_of b' k \<noteq> Some v \<longrightarrow>
      composite_key S a' \<noteq> composite_key S b'
      \<and> isDuplicate (recordResult d S a' r) S b' = isDuplicate d S b'
      \<and> getCachedResult (recordResult d S a' r) S b' = getCachedResult d S b')
   \<and> (resolve reg S = Some sd
        \<and> validate (sd_parameterSchema sd) u = Inr u \<and> validate (sd_parameterSchema sd) w = Inr w
        \<and> is_value (JObj u) \<and> is_value (JObj w)
        \<and> getCachedResult cache S u = None \<and> sd_handler sd u = Returns t \<longrightarrow>
      invocations (dispatch reg cache \<lparr>skillName = S, arguments = u\<rparr>) = 1
      \<and> (same_value (JObj u) (JObj w) \<longrightarrow>
         outcome (dispatch reg (deduplicator (dispatch reg cache \<lparr>skillName = S, arguments = u\<rparr>))
                    \<lparr>skillName = S, arguments = w\<rparr>) = Success t
         \<and> invocations (dispatch reg (deduplicator (dispatch reg cache \<lparr>skillName = S, arguments = u\<rparr>))
                    \<lparr>skillName = S, arguments = w\<rparr>) = 0)
      \<and> (\<not> same_value (JObj u) (JObj w) \<and> getCachedResult cache S w = None \<longrightarrow>
         invocations (dispatch reg (deduplicator (dispatch reg cache \<lparr>skillName = S, arguments = u\<rparr>))
                    \<lparr>skillName = S, arguments = w\<rparr>) = 1))"
proof (intro conjI impI)
  assume h: "distinct (map fst a) \<and> mset b = mset a"
  then show eq: "composite_key S a = composite_key S b"
    using canonical_members_permuted [of a b] by (simp add: composite_key_eq_iff)
  then show "isDuplicate (recordResult d S a r) S b"
    by (simp add: isDuplicate_def recordResult_def)
  from eq show "getCachedResult (recordResult d S a r) S b = Some r"
    by (simp add: getCachedResult_def recordResult_def)
next
  assume "is_value (JObj u) \<and> is_value (JObj w)"
  then show "composite_key S u = composite_key S w \<longleftrightarrow> same_value (JObj u) (JObj w)"
    using key_eq_iff_same_value by blast
next
  assume h: "distinct (map fst a') \<and> distinct (map fst b')
    \<and> map_of a' k = Some v \<and> object_free v \<and> map_of b' k \<noteq> Some v"
  then show ne: "composite_key S a' \<noteq> composite_key S b'"
    using key_of_differing_value [of a' b' k v S] by blast
  then show "isDuplicate (recordResult d S a' r) S b' = isDuplicate d S b'"
    by (simp add: isDuplicate_def recordResult_def)
  from ne show "getCachedResult (recordResult d S a' r) S b' = getCachedResult d S b'"
    by (simp add: getCachedResult_def recordResult_def)
next
  assume h: "resolve reg S = Some sd
        \<and> validate (sd_parameterSchema sd) u = Inr u \<and> validate (sd_parameterSchema sd) w = Inr w
        \<and> is_value (JObj u) \<and> is_value (JObj w)
        \<and> getCachedResult cache S u = None \<and> sd_handler sd u = Returns t"
  then have r: "resolve reg S = Some sd" and vu: "validate (sd_parameterSchema sd) u = Inr u"
    and n: "getCachedResult cache S u = None"
    by blast+
  show "invocations (dispatch reg cache \<lparr>skillName = S, arguments = u\<rparr>) = 1"
    by (rule dispatch_miss [OF r vu n])
next
  assume h: "resolve reg S = Some sd
        \<and> validate (sd_parameterSchema sd) u = Inr u \<and> validate (sd_parameterSchema sd) w = Inr w
        \<and> is_value (JObj u) \<and> is_value (JObj w)
        \<and> getCachedResult cache S u = None \<and> sd_handler sd u = Returns t"
    and s: "same_value (JObj u) (JObj w)"
  then have "composite_key S u = composite_key S w" using key_eq_iff_same_value by blast
  then have c: "getCachedResult (recordResult cache S u t) S w = Some t"
    by (simp add: cached_after_record)
  have r: "resolve reg S = Some sd" and vu: "validate (sd_parameterSchema sd) u = Inr u"
    and vw: "validate (sd_parameterSchema sd) w = Inr w"
    and n: "getCachedResult cache S u = None" and t: "sd_handler sd u = Returns t"
    using h by blast+
  have "dispatch reg (deduplicator (dispatch reg cache \<lparr>skillName = S, arguments = u\<rparr>))
           \<lparr>skillName = S, arguments = w\<rparr>
     = \<lparr>outcome = Success t, deduplicator = recordResult cache S u t, invocations = 0\<rparr>"
    unfolding dispatch_records [OF r vu n t] by (rule dispatch_hit [OF r vw c])
  then show "outcome (dispatch reg (deduplicator (dispatch reg cache \<lparr>skillName = S, arguments = u\<rparr>))
                    \<lparr>skillName = S, arguments = w\<rparr>) = Success t"
    and "invocations (dispatch reg (deduplicator (dispatch reg cache \<lparr>skillName = S, arguments = u\<rparr>))
                    \<lparr>skillName = S, arguments = w\<rparr>) = 0"
    by simp_all
next
  assume h: "resolve reg S = Some sd
        \<and> validate (sd_parameterSchema sd) u = Inr u \<and> validate (sd_parameterSchema sd) w = Inr w
        \<and> is_value (JObj u) \<and> is_value (JObj w)
        \<and> getCachedResult cache S u = None \<and> sd_handler sd u = Returns t"
    and s: "\<not> same_value (JObj u) (JObj w) \<and> getCachedResult cache S w = None"
  then have "composite_key S u \<noteq> composite_key S w" using key_eq_iff_same_value by blast
  then have c: "getCachedResult (recordResult cache S u t) S w = None"
    using s by (simp add: cached_after_record)
  have r: "resolve reg S = Some sd" and vu: "validate (sd_parameterSchema sd) u = Inr u"
    and vw: "validate (sd_parameterSchema sd) w = Inr w"
    and n: "getCachedResult cache S u = None" and t: "sd_handler sd u = Returns t"
    using h by blast+
  show "invocations (dispatch reg (deduplicator (dispatch reg cache \<lparr>skillName = S, arguments = u\<rparr>))
                    \<lparr>skillName = S, arguments = w\<rparr>) = 1"
    unfolding dispatch_records [OF r vu n t] by (rule dispatch_miss [OF r vw c])
qed

theorem key_ignores_order_not_values_witness:
  "composite_key ''echo'' [(''a'', JNum 1), (''b'', JNum 2)]
     = composite_key ''echo'' [(''b'', JNum 2), (''a'', JNum 1)]
   \<and> getCachedResult (recordResult fresh_Deduplicator ''echo'' [(''a'', JNum 1), (''b'', JNum 2)] ''HI'')
        ''echo'' [(''b'', JNum 2), (''a'', JNum 1)] = Some ''HI''
   \<and> composite_key ''echo'' [(''options'', JObj [(''x'', JNum 1), (''y'', JArr [JNum (1 / 2)])])]
     = composite_key ''echo'' [(''options'', JObj [(''y'', JArr [JNum (1 / 2)]), (''x'', JNum 1)])]
   \<and> composite_key ''echo'' [(''a'', JNum 1)] \<noteq> composite_key ''echo'' [(''a'', JNum 2)]
   \<and> getCachedResult (recordResult fresh_Deduplicator ''echo'' [(''a'', JNum 1)] ''HI'')
        ''echo'' [(''a'', JNum 2)] = None
   \<and> invocations (dispatch [textAnalyzer] fresh_Deduplicator
        \<lparr>skillName = ''text-analyzer'', arguments = good_day_arguments\<rparr>) = 1
   \<and> outcome (dispatch [textAnalyzer]
        (deduplicator (dispatch [textAnalyzer] fresh_Deduplicator
           \<lparr>skillName = ''text-analyzer'', arguments = good_day_arguments\<rparr>))
        \<lparr>skillName = ''text-analyzer'', arguments = good_day_reordered\<rparr>)
     = Success ''**Sentiment:** Positive (Positive: 1, Negative: 0)''
   \<and> invocations (dispatch [textAnalyzer]
        (deduplicator (dispatch [textAnalyzer] fresh_Deduplicator
           \<lparr>skillName = ''text-analyzer'', arguments = good_day_arguments\<rparr>))
        \<lparr>skillName = ''text-analyzer'', arguments = good_day_reordered\<rparr>) = 0
   \<and> invocations (dispatch [textAnalyzer]
        (deduplicator (dispatch [textAnalyzer] fresh_Deduplicator
           \<lparr>skillName = ''text-analyzer'', arguments = good_day_arguments\<rparr>))
        \<lparr>skillName = ''text-analyzer'', arguments = good_night_arguments\<rparr>) = 1"
proof -
  have fresh: "\<And>S args. getCachedResult fresh_Deduplicator S args = (None :: string option)"
    by (simp add: getCachedResult_def fresh_Deduplicator_def)
  have permuted: "composite_key ''echo'' [(''a'', JNum 1), (''b'', JNum 2)]
       = composite_key ''echo'' [(''b'', JNum 2), (''a'', JNum 1)]
     \<and> isDuplicate (recordResult fresh_Deduplicator ''echo'' [(''a'', JNum 1), (''b'', JNum 2)] ''HI'')
        ''echo'' [(''b'', JNum 2), (''a'', JNum 1)]
     \<and> getCachedResult (recordResult fresh_Deduplicator ''echo'' [(''a'', JNum 1), (''b'', JNum 2)] ''HI'')
        ''echo'' [(''b'', JNum 2), (''a'', JNum 1)] = Some ''HI''"
    by (rule key_ignores_order_not_values [THEN conjunct1, THEN mp]) simp
  have "composite_key ''echo'' [(''options'', JObj [(''x'', JNum 1), (''y'', JArr [JNum (1 / 2)])])]
       = composite_key ''echo'' [(''options'', JObj [(''y'', JArr [JNum (1 / 2)]), (''x'', JNum 1)])]
     \<longleftrightarrow> same_value (JObj [(''options'', JObj [(''x'', JNum 1), (''y'', JArr [JNum (1 / 2)])])])
           (JObj [(''options'', JObj [(''y'', JArr [JNum (1 / 2)]), (''x'', JNum 1)])])"
    by (rule key_ignores_order_not_values [THEN conjunct2, THEN conjunct1, THEN mp]) simp
  then have nested: "composite_key ''echo'' [(''options'', JObj [(''x'', JNum 1), (''y'', JArr [JNum (1 / 2)])])]
       = composite_key ''echo'' [(''options'', JObj [(''y'', JArr [JNum (1 / 2)]), (''x'', JNum 1)])]"
    by simp
  have "composite_key ''echo'' [(''a'', JNum 1)] \<noteq> composite_key ''echo'' [(''a'', JNum 2)]
     \<and> isDuplicate (recordResult fresh_Deduplicator ''echo'' [(''a'', JNum 1)] ''HI'') ''echo'' [(''a'', JNum 2)]
       = isDuplicate (fresh_Deduplicator :: string deduplicator) ''echo'' [(''a'', JNum 2)]
     \<and> getCachedResult (recordResult fresh_Deduplicator ''echo'' [(''a'', JNum 1)] ''HI'') ''echo'' [(''a'', JNum 2)]
       = getCachedResult fresh_Deduplicator ''echo'' [(''a'', JNum 2)]"
    by (rule key_ignores_order_not_values [where k = "''a''" and v = "JNum 1",
          THEN conjunct2, THEN conjunct2, THEN conjunct1, THEN mp]) simp
  then have differing: "composite_key ''echo'' [(''a'', JNum 1)] \<noteq> composite_key ''echo'' [(''a'', JNum 2)]
     \<and> getCachedResult (recordResult fresh_Deduplicator ''echo'' [(''a'', JNum 1)] ''HI'') ''echo'' [(''a'', JNum 2)]
       = None"
    by (simp only: fresh simp_thms)
  have wellformed: "is_value (JObj good_day_arguments)" "is_value (JObj good_day_reordered)"
      "is_value (JObj good_night_arguments)"
    by (simp_all add: good_day_arguments_def good_day_reordered_def good_night_arguments_def)
  have same: "same_value (JObj good_day_arguments) (JObj good_day_reordered)"
    by (simp add: good_day_arguments_def good_day_reordered_def)
  have other: "\<not> same_value (JObj good_day_arguments) (JObj good_night_arguments)"
    by (simp add: good_day_arguments_def good_night_arguments_def)
  have executed: "invocations (dispatch [textAnalyzer] fresh_Deduplicator
        \<lparr>skillName = ''text-analyzer'', arguments = good_day_arguments\<rparr>) = 1"
    by (rule key_ignores_order_not_values [where sd = textAnalyzer and w = good_day_reordered
          and t = "''**Sentiment:** Positive (Positive: 1, Negative: 0)''",
          THEN conjunct2, THEN conjunct2, THEN conjunct2, THEN mp, THEN conjunct1])
      (simp only: resolve_textAnalyzer validate_sample_arguments wellformed fresh
        textAnalyzer_good_day simp_thms)
  have hit: "outcome (dispatch [textAnalyzer]
        (deduplicator (dispatch [textAnalyzer] fresh_Deduplicator
           \<lparr>skillName = ''text-analyzer'', arguments = good_day_arguments\<rparr>))
        \<lparr>skillName = ''text-analyzer'', arguments = good_day_reordered\<rparr>)
       = Success ''**Sentiment:** Positive (Positive: 1, Negative: 0)''
     \<and> invocations (dispatch [textAnalyzer]
        (deduplicator (dispatch [textAnalyzer] fresh_Deduplicator
           \<lparr>skillName = ''text-analyzer'', arguments = good_day_arguments\<rparr>))
        \<lparr>skillName = ''text-analyzer'', arguments = good_day_reordered\<rparr>) = 0"
    by (rule key_ignores_order_not_values [where sd = textAnalyzer,
          THEN conjunct2, THEN conjunct2, THEN conjunct2, THEN mp, THEN conjunct2,
          THEN conjunct1, THEN mp])
      (simp_all only: resolve_textAnalyzer validate_sample_arguments wellformed fresh same
        textAnalyzer_good_day simp_thms)
  have miss: "invocations (dispatch [textAnalyzer]
        (deduplicator (dispatch [textAnalyzer] fresh_Deduplicator
           \<lparr>skillName = ''text-analyzer'', arguments = good_day_arguments\<rparr>))
        \<lparr>skillName = ''text-analyzer'', arguments = good_night_arguments\<rparr>) = 1"
    by (rule key_ignores_order_not_values [where sd = textAnalyzer
          and t = "''**Sentiment:** Positive (Positive: 1, Negative: 0)''",
          THEN conjunct2, THEN conjunct2, THEN conjunct2, THEN mp, THEN conjunct2,
          THEN conjunct2, THEN mp])
      (simp_all only: resolve_textAnalyzer validate_sample_arguments wellformed fresh other
        textAnalyzer_good_day simp_thms)
  show ?thesis using permuted nested differing executed hit miss by blast
qed

section \<open>Validation in the Dispatcher\<close>

lemma first_failure_find:
  assumes "find P xs = Some x" and "\<And>y. check y = (if P y then Some (g y) else None)"
  shows "first_failure check xs = Some (g x)"
  using assms(1)
proof (induction xs)
  case Nil
  then show ?case by simp
next
  case (Cons y ys)
  then show ?case using assms(2) [of y] by (cases "P y") simp_all
qed

lemma first_failure_none:
  assumes "find P xs = None" and "\<And>y. check y = (if P y then Some (g y) else None)"
  shows "first_failure check xs = None"
  using assms(1)
proof (induction xs)
  case Nil
  then show ?case by simp
next
  case (Cons y ys)
  then show ?case using assms(2) [of y] by (cases "P y") simp_all
qed

lemma spec_of_undeclared:
  "spec_of schema k = None \<longleftrightarrow> k \<notin> p_name ` set (parameters schema)"
  by (auto simp: spec_of_def find_None_iff)

lemma missing_parameter_found:
  assumes "find (\<lambda>p. p_required p \<and> p_name p \<notin> fst ` set args) (parameters schema) = Some p"
  shows "missing_parameter schema args = Some (MissingParameter (p_name p))"
  unfolding missing_parameter_def
  by (rule first_failure_find [OF assms]) simp

lemma missing_parameter_none:
  assumes "\<forall>p \<in> set (parameters schema). p_required p \<longrightarrow> p_name p \<in> fst ` set args"
  shows "missing_parameter schema args = None"
proof -
  have "find (\<lambda>p. p_required p \<and> p_name p \<notin> fst ` set args) (parameters schema) = None"
    using assms by (auto simp: find_None_iff)
  then show ?thesis
    unfolding missing_parameter_def
    by (rule first_failure_none [where g = "\<lambda>p. MissingParameter (p_name p)"]) simp
qed

lemma undeclared_parameter_found:
  assumes "\<not> additionalProperties schema" "(k, v) \<in> set args"
    "k \<notin> p_name ` set (parameters schema)"
  shows "\<exists>k' v'. find (\<lambda>(k, v). k \<notin> p_name ` set (parameters schema)) args = Some (k', v')
    \<and> unknown_parameter schema args = Some (UnknownParameter k')"
proof -
  have "find (\<lambda>(k, v). k \<notin> p_name ` set (parameters schema)) args \<noteq> None"
    using assms(2,3) by (auto simp: find_None_iff)
  then obtain k' v' where
    f: "find (\<lambda>(k, v). k \<notin> p_name ` set (parameters schema)) args = Some (k', v')"
    by (cases "find (\<lambda>(k, v). k \<notin> p_name ` set (parameters schema)) args") auto
  have "first_failure (\<lambda>(k, v). if spec_of schema k = None then Some (UnknownParameter k) else None) args
      = Some (UnknownParameter (fst (k', v')))"
    by (rule first_failure_find [OF f]) (auto simp: spec_of_undeclared)
  then show ?thesis using assms(1) f by (simp add: unknown_parameter_def)
qed

lemma dispatch_invalid:
  assumes "resolve reg (skillName req) = Some d"
    and "validate (sd_parameterSchema d) (arguments req) = Inl failure"
  shows "dispatch reg dedup req
    = \<lparr>outcome = Failure ValidationFailed (show_failure failure), deduplicator = dedup,
       invocations = 0\<rparr>"
  unfolding dispatch_def by (simp add: assms)

text \<open>
  C5, as amended. Validation rejects an argument key that the schema does not declare.
  For every argument map with such a key, under a schema that does not allow additional
  properties, the dispatch returns a validation failure, does not invoke the handler
  and leaves the Deduplicator as it is. When every required parameter of the schema is
  present, the failure names the unknown parameter (the first one of the argument
  map). When a required parameter is absent, the failure names the first such
  parameter of the schema instead: a missing required parameter is reported before an
  unknown one.
\<close>

theorem unknown_argument_is_rejected:
  assumes "resolve reg (skillName req) = Some d"
    and "\<not> additionalProperties (sd_parameterSchema d)"
    and "(k, v) \<in> set (arguments req)"
    and "k \<notin> p_name ` set (parameters (sd_parameterSchema d))"
  shows "(\<exists>m. outcome (dispatch reg dedup req) = Failure ValidationFailed m)
    \<and> invocations (dispatch reg dedup req) = 0
    \<and> deduplicator (dispatch reg dedup req) = dedup
    \<and> ((\<forall>p \<in> set (parameters (sd_parameterSchema d)).
           p_required p \<longrightarrow> p_name p \<in> fst ` set (arguments req)) \<longrightarrow>
         (\<exists>k' v'. find (\<lambda>(k, v). k \<notin> p_name ` set (parameters (sd_parameterSchema d)))
                     (arguments req) = Some (k', v')
            \<and> outcome (dispatch reg dedup req)
                = Failure ValidationFailed (''UnknownParameter('' @ k' @ '')'')))
    \<and> (\<forall>p. find (\<lambda>p. p_required p \<and> p_name p \<notin> fst ` set (arguments req))
               (parameters (sd_parameterSchema d)) = Some p \<longrightarrow>
         outcome (dispatch reg dedup req)
           = Failure ValidationFailed (''MissingParameter('' @ p_name p @ '')''))"
proof -
  let ?schema = "sd_parameterSchema d"
  let ?missing = "find (\<lambda>p. p_required p \<and> p_name p \<notin> fst ` set (arguments req)) (parameters ?schema)"
  obtain k' v' where
    f: "find (\<lambda>(k, v). k \<notin> p_name ` set (parameters ?schema)) (arguments req) = Some (k', v')"
    and u: "unknown_parameter ?schema (arguments req) = Some (UnknownParameter k')"
    using undeclared_parameter_found [OF assms(2,3,4)] by blast
  show ?thesis
  proof (cases ?missing)
    case None
    then have all: "\<forall>p \<in> set (parameters ?schema). p_required p \<longrightarrow> p_name p \<in> fst ` set (arguments req)"
      by (auto simp: find_None_iff)
    then have "missing_parameter ?schema (arguments req) = None" by (rule missing_parameter_none)
    then have "validate ?schema (arguments req) = Inl (UnknownParameter k')"
      using u by (simp add: validate_def)
    then have "dispatch reg dedup req
        = \<lparr>outcome = Failure ValidationFailed (show_failure (UnknownParameter k')),
           deduplicator = dedup, invocations = 0\<rparr>"
      by (rule dispatch_invalid [OF assms(1)])
    then show ?thesis using f None by simp
  next
    case (Some p)
    then have required: "p_required p \<and> p_name p \<notin> fst ` set (arguments req)"
      and declared: "p \<in> set (parameters ?schema)"
      by (auto simp: find_Some_iff in_set_conv_nth)
    have "missing_parameter ?schema (arguments req) = Some (MissingParameter (p_name p))"
      using Some by (rule missing_parameter_found)
    then have "validate ?schema (arguments req) = Inl (MissingParameter (p_name p))"
      by (simp add: validate_def)
    then have "dispatch reg dedup req
        = \<lparr>outcome = Failure ValidationFailed (show_failure (MissingParameter (p_name p))),
           deduplicator = dedup, invocations = 0\<rparr>"
      by (rule dispatch_invalid [OF assms(1)])
    moreover have "\<not> (\<forall>p \<in> set (parameters ?schema). p_required p \<longrightarrow> p_name p \<in> fst ` set (arguments req))"
      using required declared by blast
    ultimately show ?thesis using Some by simp
  qed
qed

lemma textAnalyzer_closed: "\<not> additionalProperties (sd_parameterSchema textAnalyzer)"
  by (simp add: textAnalyzer_def textAnalyzer_schema_def)

lemma textAnalyzer_extra:
  "''extra'' \<notin> p_name ` set (parameters (sd_parameterSchema textAnalyzer))"
  by (simp add: textAnalyzer_def textAnalyzer_schema_def)

theorem unknown_argument_is_rejected_witness:
  "outcome (dispatch [textAnalyzer] fresh_Deduplicator with_extra)
     = Failure ValidationFailed ''UnknownParameter(extra)''
   \<and> invocations (dispatch [textAnalyzer] fresh_Deduplicator with_extra) = 0
   \<and> deduplicator (dispatch [textAnalyzer] fresh_Deduplicator with_extra) = fresh_Deduplicator
   \<and> outcome (dispatch [textAnalyzer] fresh_Deduplicator only_extra)
     = Failure ValidationFailed ''MissingParameter(text)''
   \<and> invocations (dispatch [textAnalyzer] fresh_Deduplicator only_extra) = 0"
proof -
  have r: "resolve [textAnalyzer] (skillName with_extra) = Some textAnalyzer"
    using resolve_textAnalyzer by (simp add: with_extra_def)
  have m: "(''extra'', JNum 1) \<in> set (arguments with_extra)" by (simp add: with_extra_def)
  have present: "\<forall>p \<in> set (parameters (sd_parameterSchema textAnalyzer)).
      p_required p \<longrightarrow> p_name p \<in> fst ` set (arguments with_extra)"
    by (simp add: textAnalyzer_def textAnalyzer_schema_def with_extra_def)
  have first: "find (\<lambda>(k, v). k \<notin> p_name ` set (parameters (sd_parameterSchema textAnalyzer)))
      (arguments with_extra) = Some (''extra'', JNum 1)"
    by (simp add: textAnalyzer_def textAnalyzer_schema_def with_extra_def)
  have r': "resolve [textAnalyzer] (skillName only_extra) = Some textAnalyzer"
    using resolve_textAnalyzer by (simp add: only_extra_def)
  have m': "(''extra'', JNum 1) \<in> set (arguments only_extra)" by (simp add: only_extra_def)
  have missing: "find (\<lambda>p. p_required p \<and> p_name p \<notin> fst ` set (arguments only_extra))
      (parameters (sd_parameterSchema textAnalyzer))
      = Some \<lparr>p_name = ''text'', p_kind = KString, p_required = True, p_allowed = [],
              p_min = None, p_max = None\<rparr>"
    by (simp add: textAnalyzer_def textAnalyzer_schema_def only_extra_def)
  have unknown: "outcome (dispatch [textAnalyzer] fresh_Deduplicator with_extra)
       = Failure ValidationFailed ''UnknownParameter(extra)''
     \<and> invocations (dispatch [textAnalyzer] fresh_Deduplicator with_extra) = 0
     \<and> deduplicator (dispatch [textAnalyzer] fresh_Deduplicator with_extra) = fresh_Deduplicator"
    using unknown_argument_is_rejected [OF r textAnalyzer_closed m textAnalyzer_extra,
        of fresh_Deduplicator] present first
    by auto
  have "outcome (dispatch [textAnalyzer] fresh_Deduplicator only_extra)
       = Failure ValidationFailed ''MissingParameter(text)''
     \<and> invocations (dispatch [textAnalyzer] fresh_Deduplicator only_extra) = 0"
    using unknown_argument_is_rejected [OF r' textAnalyzer_closed m' textAnalyzer_extra,
        of fresh_Deduplicator] missing
    by auto
  then show ?thesis using unknown by blast
qed

text \<open>
  The claim C5 as it is written fails on the Dispatcher of the spec: an argument map with
  an unknown key and without the required \<open>text\<close> is rejected with the name of the
  missing parameter, not of the unknown one.
\<close>

theorem missing_parameter_reported_first:
  "(''extra'', JNum 1) \<in> set (arguments only_extra)
   \<and> ''extra'' \<notin> p_name ` set (parameters (sd_parameterSchema textAnalyzer))
   \<and> \<not> additionalProperties (sd_parameterSchema textAnalyzer)
   \<and> outcome (dispatch [textAnalyzer] fresh_Deduplicator only_extra)
       = Failure ValidationFailed ''MissingParameter(text)''
   \<and> outcome (dispatch [textAnalyzer] fresh_Deduplicator only_extra)
       \<noteq> Failure ValidationFailed ''UnknownParameter(extra)''"
proof -
  have r: "resolve [textAnalyzer] (skillName only_extra) = Some textAnalyzer"
    using resolve_textAnalyzer by (simp add: only_extra_def)
  have "missing_parameter (sd_parameterSchema textAnalyzer) (arguments only_extra)
      = Some (MissingParameter ''text'')"
    by (simp add: missing_parameter_def textAnalyzer_def textAnalyzer_schema_def only_extra_def)
  then have "validate (sd_parameterSchema textAnalyzer) (arguments only_extra)
      = Inl (MissingParameter ''text'')"
    by (simp add: validate_def)
  then have "outcome (dispatch [textAnalyzer] fresh_Deduplicator only_extra)
      = Failure ValidationFailed ''MissingParameter(text)''"
    using r by (simp add: dispatch_def)
  then show ?thesis using textAnalyzer_closed textAnalyzer_extra by (simp add: only_extra_def)
qed

end
